theory Spec2Isabelle
  imports Complex_Main
begin

section \<open>The resume analyser: retry loop, prompt, response parsing, request handler\<close>

text \<open>
  A shallow embedding of \<^verbatim>\<open>src/server.ts\<close>. Text is a \<^typ>\<open>string\<close>, one
  \<^typ>\<open>char\<close> per UTF-16 code unit (HOL's characters cover the units below 256). A
  thrown JavaScript error is represented by its \<^verbatim>\<open>message\<close>, the only part of
  it the program reads.
\<close>

subsection \<open>Outcomes of calls that may throw\<close>

datatype 'a outcome = Returns 'a | Throws string

subsection \<open>String operations of the runtime\<close>

text \<open>\<^verbatim>\<open>s.startsWith(p)\<close> and \<^verbatim>\<open>s.includes(p)\<close>.\<close>

fun startsWith :: "string \<Rightarrow> string \<Rightarrow> bool" where
  "startsWith [] s = True"
| "startsWith (p # ps) [] = False"
| "startsWith (p # ps) (c # cs) = (p = c \<and> startsWith ps cs)"

fun includes_str :: "string \<Rightarrow> string \<Rightarrow> bool" where
  "includes_str p [] = (p = [])"
| "includes_str p (c # cs) = (startsWith p (c # cs) \<or> includes_str p cs)"

subsection \<open>The model call and the effects of a request\<close>

text \<open>
  \<^verbatim>\<open>model.generateContent(prompt)\<close> either throws or returns a result whose
  \<^verbatim>\<open>response.text()\<close> in turn throws or returns the text. The upstream is a
  function of the number of calls made so far and of the prompt.
\<close>

type_synonym response = "string outcome"

type_synonym upstream = "nat \<Rightarrow> string \<Rightarrow> response outcome"

text \<open>
  The observable effects: how many upstream calls were made and which delays were handed
  to \<^verbatim>\<open>setTimeout\<close>, in order. The delay is a JavaScript number; the model keeps
  it as an exact rational (multiplying 3000 by 1.5 is exact in double precision for more
  than twenty retries in a row; the default allows four). The console output is not
  modelled.
\<close>

record effects =
  calls :: nat
  waits :: "rat list"

subsection \<open>generateWithRetry (lines 40 to 59)\<close>

text \<open>
  How a run of \<^verbatim>\<open>generateWithRetry\<close> ends: \<open>Returned\<close> is line 44,
  \<open>Rethrown\<close> is \<^verbatim>\<open>throw error\<close> on line 54 and \<open>Exhausted\<close> is the
  \<^verbatim>\<open>throw new Error(...)\<close> on line 58, after the loop.
\<close>

datatype exit = Returned response | Rethrown string | Exhausted string

definition isBusy :: "string \<Rightarrow> bool" where
  "isBusy message = (includes_str ''503'' message \<or> includes_str ''overloaded'' message)"

definition capacityMessage :: string where
  "capacityMessage = ''Gemini 2.5 is at max capacity. Please try again in 1 minute.''"

function retryLoop ::
  "upstream \<Rightarrow> string \<Rightarrow> int \<Rightarrow> int \<Rightarrow> rat \<Rightarrow> 'a effects_scheme \<Rightarrow>
   exit \<times> 'a effects_scheme" where
  "retryLoop generateContent prompt retries i delay s =
     (if i < retries then
        (case generateContent (calls s) prompt of
           Returns result \<Rightarrow> (Returned result, s\<lparr>calls := calls s + 1\<rparr>)
         | Throws message \<Rightarrow>
             if isBusy message \<and> i < retries - 1 then
               retryLoop generateContent prompt retries (i + 1) (delay * (3 / 2))
                 (s\<lparr>calls := calls s + 1, waits := waits s @ [delay]\<rparr>)
             else (Rethrown message, s\<lparr>calls := calls s + 1\<rparr>))
      else (Exhausted capacityMessage, s))"
  by pat_completeness auto
termination
  by (relation "measure (\<lambda>(g, p, retries, i, d, s). nat (retries - i))") auto

declare retryLoop.simps [simp del]

definition generateWithRetry ::
  "upstream \<Rightarrow> string \<Rightarrow> int \<Rightarrow> rat \<Rightarrow> 'a effects_scheme \<Rightarrow> exit \<times> 'a effects_scheme" where
  "generateWithRetry generateContent prompt retries delay s =
     retryLoop generateContent prompt retries 0 delay s"

text \<open>The default arguments \<^verbatim>\<open>retries = 5, delay = 3000\<close>.\<close>

definition defaultRetries :: int where
  "defaultRetries = 5"

definition defaultDelay :: rat where
  "defaultDelay = 3000"

subsection \<open>The prompt (lines 100 to 111)\<close>

text \<open>
  The template literal of line 100, cut at its two substitutions. Line ends are the
  character \<open>\<newline>\<close>; the indentation of the source is part of the text.
  \<^verbatim>\<open>resumeText.substring(0, 25000)\<close> is \<^term>\<open>take 25000 resumeText\<close>.
\<close>

definition promptHead :: string where
  \<open>promptHead = ''\<newline>            Act as an expert ATS. Compare the RESUME TEXT to the JOB DESCRIPTION.\<newline>            \<newline>            RESUME:\<newline>            ''\<close>

definition promptMiddle :: string where
  \<open>promptMiddle = '' ... (truncated)\<newline>            \<newline>            JOB DESCRIPTION:\<newline>            ''\<close>

definition promptTail :: string where
  \<open>promptTail = ''\<newline>            \<newline>            OUTPUT JSON ONLY: { "score": 0-100, "missingKeywords": ["skill1"], "advice": "summary" }\<newline>            Do not use markdown.\<newline>        ''\<close>

definition buildPrompt :: "string \<Rightarrow> string \<Rightarrow> string" where
  "buildPrompt resumeText jobDescription =
     promptHead @ take 25000 resumeText @ promptMiddle @ jobDescription @ promptTail"

subsection \<open>trim and replace (lines 115 and 117)\<close>

text \<open>
  \<^verbatim>\<open>String.prototype.trim\<close> removes white space and line terminators from both
  ends; these are the seven of them below 256.
\<close>

definition isWhiteSpace :: "char \<Rightarrow> bool" where
  "isWhiteSpace c =
     (c \<in> set [CHR 0x09, CHR 0x0A, CHR 0x0B, CHR 0x0C, CHR 0x0D, CHR 0x20, CHR 0xA0])"

definition trim :: "string \<Rightarrow> string" where
  "trim s = rev (dropWhile isWhiteSpace (rev (dropWhile isWhiteSpace s)))"

text \<open>
  \<^verbatim>\<open>s.replace(/pat/g, '')\<close> for a pattern without metacharacters: scanning from
  the left, every match is dropped and the scan goes on behind it.
\<close>

function eraseAll :: "string \<Rightarrow> string \<Rightarrow> string" where
  "eraseAll pat [] = []"
| "eraseAll pat (c # cs) =
     (if pat \<noteq> [] \<and> startsWith pat (c # cs)
      then eraseAll pat (drop (length pat) (c # cs))
      else c # eraseAll pat cs)"
  by pat_completeness auto
termination
  by (relation "measure (\<lambda>(pat, s). length s)") (auto simp: Suc_le_eq)

declare eraseAll.simps [simp del]

definition fenceJson :: string where
  "fenceJson = ''```json''"

definition fence :: string where
  "fence = ''```''"

definition cleanJson :: "string \<Rightarrow> string" where
  "cleanJson responseText = eraseAll fence (eraseAll fenceJson responseText)"

subsection \<open>JSON values and JSON.parse (line 118)\<close>

text \<open>
  \<^verbatim>\<open>JSON.parse\<close> is part of the runtime, not of the repository; it is modelled
  after the JSON grammar (ECMA-404), which ECMAScript prescribes for it. A number is kept
  as the exact value of its literal (the runtime rounds it to a double). A string value is
  a list of code units, because an escape \<^verbatim>\<open>\uXXXX\<close> can name any of the 65536
  units. An object keeps its members in the order of the text, duplicates included; reading
  a property takes the last one, as the runtime's object does.
\<close>

datatype json =
    JNull
  | JBool bool
  | JNumber rat
  | JString "nat list"
  | JArray "json list"
  | JObject "(nat list \<times> json) list"

definition units :: "string \<Rightarrow> nat list" where
  "units s = map of_char s"

text \<open>
  What the program gets from the JavaScript engine and the model leaves open: the
  messages of the errors the engine throws (a \<^verbatim>\<open>SyntaxError\<close> message may quote
  the text that failed to parse) and the conversion of a number to a string.
\<close>

record engine =
  syntaxErrorMessage :: "string \<Rightarrow> string"
  nullReadMessage :: string
  undefinedReadMessage :: string
  notAFunctionMessage :: string
  notPrimitiveMessage :: string
  numberToString :: "rat \<Rightarrow> nat list"

text \<open>
  The lexer is a state machine that reads one character at a time. A number or a literal
  name ends at the first character that cannot continue it, and that character is then
  read as the start of the next token.
\<close>

datatype token =
    LBrace | RBrace | LBracket | RBracket | Colon | Comma
  | StringTok "nat list" | NumberTok rat | TrueTok | FalseTok | NullTok

definition isJsonSpace :: "char \<Rightarrow> bool" where
  "isJsonSpace c = (c \<in> set [CHR 0x09, CHR 0x0A, CHR 0x0D, CHR 0x20])"

definition isDigit :: "char \<Rightarrow> bool" where
  "isDigit c = (48 \<le> (of_char c :: nat) \<and> (of_char c :: nat) \<le> 57)"

definition isLower :: "char \<Rightarrow> bool" where
  "isLower c = (97 \<le> (of_char c :: nat) \<and> (of_char c :: nat) \<le> 122)"

definition isNumberChar :: "char \<Rightarrow> bool" where
  "isNumberChar c = (isDigit c \<or> c \<in> set ''+-.eE'')"

definition digitsValue :: "string \<Rightarrow> nat" where
  "digitsValue ds = foldl (\<lambda>a c. 10 * a + (of_char c - 48)) 0 ds"

definition hexValue :: "char \<Rightarrow> nat option" where
  "hexValue c =
     (let n = (of_char c :: nat) in
      if 48 \<le> n \<and> n \<le> 57 then Some (n - 48)
      else if 65 \<le> n \<and> n \<le> 70 then Some (n - 55)
      else if 97 \<le> n \<and> n \<le> 102 then Some (n - 87)
      else None)"

definition takeSign :: "string \<Rightarrow> bool \<times> string" where
  "takeSign s =
     (case s of [] \<Rightarrow> (False, s)
      | c # r \<Rightarrow> if c = CHR ''-'' then (True, r) else (False, s))"

definition takeFraction :: "string \<Rightarrow> string option \<times> string" where
  "takeFraction s =
     (case s of [] \<Rightarrow> (None, s)
      | c # r \<Rightarrow> if c = CHR ''.'' then (Some (takeWhile isDigit r), dropWhile isDigit r)
                 else (None, s))"

definition takeExponent :: "string \<Rightarrow> (bool \<times> string) option \<times> string" where
  "takeExponent s =
     (case s of [] \<Rightarrow> (None, s)
      | c # r \<Rightarrow>
          if c = CHR ''e'' \<or> c = CHR ''E'' then
            (case takeSign r of (down, r1) \<Rightarrow>
               let r2 = (case r1 of [] \<Rightarrow> r1 | d # r' \<Rightarrow> if \<not> down \<and> d = CHR ''+'' then r' else r1)
               in (Some (down, takeWhile isDigit r2), dropWhile isDigit r2))
          else (None, s))"

definition parseNumber :: "string \<Rightarrow> rat option" where
  "parseNumber lexeme =
     (case takeSign lexeme of (negative, s1) \<Rightarrow>
      let whole = takeWhile isDigit s1 in
      case takeFraction (dropWhile isDigit s1) of (fraction, s2) \<Rightarrow>
      case takeExponent s2 of (exponent, s3) \<Rightarrow>
      if whole = [] \<or> (1 < length whole \<and> hd whole = CHR ''0'') \<or> fraction = Some []
         \<or> (case exponent of Some (_, ds) \<Rightarrow> ds = [] | None \<Rightarrow> False) \<or> s3 \<noteq> []
      then None
      else
        let mantissa = of_nat (digitsValue whole) +
              (case fraction of None \<Rightarrow> 0
               | Some ds \<Rightarrow> of_nat (digitsValue ds) / 10 ^ length ds);
            scaled = (case exponent of None \<Rightarrow> mantissa
               | Some (down, ds) \<Rightarrow>
                   if down then mantissa / 10 ^ digitsValue ds
                   else mantissa * 10 ^ digitsValue ds)
        in Some (if negative then - scaled else scaled))"

definition literalToken :: "string \<Rightarrow> token option" where
  "literalToken lexeme =
     (if lexeme = ''true'' then Some TrueTok
      else if lexeme = ''false'' then Some FalseTok
      else if lexeme = ''null'' then Some NullTok
      else None)"

datatype lexmode =
    Between
  | InString "nat list"
  | InEscape "nat list"
  | InUnicode "nat list" "nat list"
  | InNumber string
  | InLiteral string

definition lexBetween :: "char \<Rightarrow> (token list \<times> lexmode) option" where
  "lexBetween c =
     (if isJsonSpace c then Some ([], Between)
      else if c = CHR ''{'' then Some ([LBrace], Between)
      else if c = CHR ''}'' then Some ([RBrace], Between)
      else if c = CHR ''['' then Some ([LBracket], Between)
      else if c = CHR '']'' then Some ([RBracket], Between)
      else if c = CHR '':'' then Some ([Colon], Between)
      else if c = CHR '','' then Some ([Comma], Between)
      else if c = CHR 0x22 then Some ([], InString [])
      else if c = CHR ''-'' \<or> isDigit c then Some ([], InNumber [c])
      else if isLower c then Some ([], InLiteral [c])
      else None)"

fun lexEnd :: "lexmode \<Rightarrow> token list option" where
  "lexEnd Between = Some []"
| "lexEnd (InNumber lexeme) = map_option (\<lambda>r. [NumberTok r]) (parseNumber lexeme)"
| "lexEnd (InLiteral lexeme) = map_option (\<lambda>t. [t]) (literalToken lexeme)"
| "lexEnd (InString acc) = None"
| "lexEnd (InEscape acc) = None"
| "lexEnd (InUnicode acc ds) = None"

definition lexAfter :: "lexmode \<Rightarrow> char \<Rightarrow> (token list \<times> lexmode) option" where
  "lexAfter m c =
     (case lexEnd m of None \<Rightarrow> None
      | Some ts \<Rightarrow>
          (case lexBetween c of None \<Rightarrow> None | Some (ts', m') \<Rightarrow> Some (ts @ ts', m')))"

definition escapeUnit :: "char \<Rightarrow> nat option" where
  "escapeUnit c =
     (if c = CHR 0x22 \<or> c = CHR 0x5C \<or> c = CHR ''/'' then Some (of_char c)
      else if c = CHR ''b'' then Some 8
      else if c = CHR ''f'' then Some 12
      else if c = CHR ''n'' then Some 10
      else if c = CHR ''r'' then Some 13
      else if c = CHR ''t'' then Some 9
      else None)"

fun lexStep :: "lexmode \<Rightarrow> char \<Rightarrow> (token list \<times> lexmode) option" where
  "lexStep Between c = lexBetween c"
| "lexStep (InString acc) c =
     (if c = CHR 0x22 then Some ([StringTok acc], Between)
      else if c = CHR 0x5C then Some ([], InEscape acc)
      else if (of_char c :: nat) < 32 then None
      else Some ([], InString (acc @ [of_char c])))"
| "lexStep (InEscape acc) c =
     (if c = CHR ''u'' then Some ([], InUnicode acc [])
      else (case escapeUnit c of None \<Rightarrow> None
            | Some u \<Rightarrow> Some ([], InString (acc @ [u]))))"
| "lexStep (InUnicode acc ds) c =
     (case hexValue c of None \<Rightarrow> None
      | Some h \<Rightarrow>
          if length ds = 3
          then Some ([], InString (acc @ [foldl (\<lambda>a d. 16 * a + d) 0 (ds @ [h])]))
          else Some ([], InUnicode acc (ds @ [h])))"
| "lexStep (InNumber lexeme) c =
     (if isNumberChar c then Some ([], InNumber (lexeme @ [c]))
      else lexAfter (InNumber lexeme) c)"
| "lexStep (InLiteral lexeme) c =
     (if isLower c then Some ([], InLiteral (lexeme @ [c]))
      else lexAfter (InLiteral lexeme) c)"

fun lexRun :: "lexmode \<Rightarrow> string \<Rightarrow> token list option" where
  "lexRun m [] = lexEnd m"
| "lexRun m (c # cs) =
     (case lexStep m c of None \<Rightarrow> None
      | Some (ts, m') \<Rightarrow> map_option ((@) ts) (lexRun m' cs))"

text \<open>
  The parser reads one token at a time, with a stack of the arrays and objects that are
  still open.
\<close>

datatype frame =
    ArrayFrame "json list"
  | ObjectFrame "(nat list \<times> json) list"
  | MemberFrame "(nat list \<times> json) list" "nat list"

datatype expect = Value | ValueOrClose | KeyOrClose | Key | ColonAfterKey | Done json

definition startValue :: "frame list \<Rightarrow> token \<Rightarrow> (expect \<times> frame list) option" where
  "startValue stack t =
     (case t of
        StringTok s \<Rightarrow> Some (Done (JString s), stack)
      | NumberTok r \<Rightarrow> Some (Done (JNumber r), stack)
      | TrueTok \<Rightarrow> Some (Done (JBool True), stack)
      | FalseTok \<Rightarrow> Some (Done (JBool False), stack)
      | NullTok \<Rightarrow> Some (Done JNull, stack)
      | LBracket \<Rightarrow> Some (ValueOrClose, ArrayFrame [] # stack)
      | LBrace \<Rightarrow> Some (KeyOrClose, ObjectFrame [] # stack)
      | _ \<Rightarrow> None)"

definition startMember :: "frame list \<Rightarrow> token \<Rightarrow> (expect \<times> frame list) option" where
  "startMember stack t =
     (case (t, stack) of
        (StringTok k, ObjectFrame ms # rest) \<Rightarrow> Some (ColonAfterKey, MemberFrame ms k # rest)
      | _ \<Rightarrow> None)"

fun parseStep :: "expect \<Rightarrow> frame list \<Rightarrow> token \<Rightarrow> (expect \<times> frame list) option" where
  "parseStep Value stack t = startValue stack t"
| "parseStep ValueOrClose stack t =
     (case (t, stack) of
        (RBracket, ArrayFrame xs # rest) \<Rightarrow> Some (Done (JArray xs), rest)
      | _ \<Rightarrow> startValue stack t)"
| "parseStep KeyOrClose stack t =
     (case (t, stack) of
        (RBrace, ObjectFrame ms # rest) \<Rightarrow> Some (Done (JObject ms), rest)
      | _ \<Rightarrow> startMember stack t)"
| "parseStep Key stack t = startMember stack t"
| "parseStep ColonAfterKey stack t = (case t of Colon \<Rightarrow> Some (Value, stack) | _ \<Rightarrow> None)"
| "parseStep (Done v) stack t =
     (case (t, stack) of
        (Comma, ArrayFrame xs # rest) \<Rightarrow> Some (Value, ArrayFrame (xs @ [v]) # rest)
      | (RBracket, ArrayFrame xs # rest) \<Rightarrow> Some (Done (JArray (xs @ [v])), rest)
      | (Comma, MemberFrame ms k # rest) \<Rightarrow> Some (Key, ObjectFrame (ms @ [(k, v)]) # rest)
      | (RBrace, MemberFrame ms k # rest) \<Rightarrow> Some (Done (JObject (ms @ [(k, v)])), rest)
      | _ \<Rightarrow> None)"

fun parseTokens :: "expect \<Rightarrow> frame list \<Rightarrow> token list \<Rightarrow> json option" where
  "parseTokens e stack [] = (case (e, stack) of (Done v, []) \<Rightarrow> Some v | _ \<Rightarrow> None)"
| "parseTokens e stack (t # ts) =
     (case parseStep e stack t of None \<Rightarrow> None
      | Some (e', stack') \<Rightarrow> parseTokens e' stack' ts)"

definition parseText :: "string \<Rightarrow> json option" where
  "parseText text =
     (case lexRun Between text of None \<Rightarrow> None | Some ts \<Rightarrow> parseTokens Value [] ts)"

definition JSON_parse :: "'a engine_scheme \<Rightarrow> string \<Rightarrow> json outcome" where
  "JSON_parse engine text =
     (case parseText text of
        None \<Rightarrow> Throws (syntaxErrorMessage engine text)
      | Some v \<Rightarrow> Returns v)"

subsection \<open>Reading the parsed analysis (line 122)\<close>

text \<open>
  \<^verbatim>\<open>analysis.score\<close> and \<^verbatim>\<open>analysis.missingKeywords\<close>: an own property of
  an object, otherwise \<^verbatim>\<open>undefined\<close> (\<open>None\<close>); no prototype defines either
  name. Reading a property of \<^verbatim>\<open>null\<close> or \<^verbatim>\<open>undefined\<close> throws.
\<close>

fun member :: "json \<Rightarrow> nat list \<Rightarrow> json option" where
  "member (JObject ms) name = map_of (rev ms) name"
| "member v name = None"

text \<open>
  \<^verbatim>\<open>Array.prototype.join\<close>: \<^verbatim>\<open>null\<close> becomes the empty string, a nested
  array is joined with a comma, an object becomes \<^verbatim>\<open>[object Object]\<close> unless it
  has an own member \<^verbatim>\<open>toString\<close>, which a parsed value cannot call, so that the
  conversion throws. Only an array has \<^verbatim>\<open>join\<close>.
\<close>

fun elementToString :: "'a engine_scheme \<Rightarrow> json \<Rightarrow> nat list outcome"
  and joinWith :: "'a engine_scheme \<Rightarrow> nat list \<Rightarrow> json list \<Rightarrow> nat list outcome" where
  "elementToString engine JNull = Returns []"
| "elementToString engine (JBool b) = Returns (units (if b then ''true'' else ''false''))"
| "elementToString engine (JNumber r) = Returns (numberToString engine r)"
| "elementToString engine (JString s) = Returns s"
| "elementToString engine (JArray xs) = joinWith engine (units '','') xs"
| "elementToString engine (JObject ms) =
     (if units ''toString'' \<in> fst ` set ms then Throws (notPrimitiveMessage engine)
      else Returns (units ''[object Object]''))"
| "joinWith engine separator [] = Returns []"
| "joinWith engine separator [x] = elementToString engine x"
| "joinWith engine separator (x # y # ys) =
     (case elementToString engine x of
        Throws message \<Rightarrow> Throws message
      | Returns first \<Rightarrow>
          (case joinWith engine separator (y # ys) of
             Throws message \<Rightarrow> Throws message
           | Returns rest \<Rightarrow> Returns (first @ separator @ rest)))"

text \<open>The values of the \<^verbatim>\<open>INSERT\<close> of line 121, one per column.\<close>

record analysisRow =
  job_title :: string
  match_score :: "json option"
  missing_skills :: "nat list"

definition unknownRole :: string where
  "unknownRole = ''Unknown Role''"

definition insertValues ::
  "'a engine_scheme \<Rightarrow> string option \<Rightarrow> json \<Rightarrow> analysisRow outcome" where
  "insertValues engine jobTitle analysis =
     (let title = (case jobTitle of None \<Rightarrow> unknownRole
                   | Some t \<Rightarrow> if t = [] then unknownRole else t)
      in if analysis = JNull then Throws (nullReadMessage engine)
      else
        (case member analysis (units ''missingKeywords'') of
           None \<Rightarrow> Throws (undefinedReadMessage engine)
         | Some JNull \<Rightarrow> Throws (nullReadMessage engine)
         | Some (JArray xs) \<Rightarrow>
             (case joinWith engine (units '', '') xs of
                Throws message \<Rightarrow> Throws message
              | Returns joined \<Rightarrow>
                  Returns \<lparr>job_title = title,
                           match_score = member analysis (units ''score''),
                           missing_skills = joined\<rparr>)
         | Some _ \<Rightarrow> Throws (notAFunctionMessage engine)))"

subsection \<open>The request handler (lines 82 to 135)\<close>

text \<open>
  The request after \<^verbatim>\<open>multer\<close>: the uploaded file's buffer and two text fields,
  each present or not. The collaborators: the PDF parser, the model and the database, whose
  \<^verbatim>\<open>INSERT\<close> either fails with a message, writing nothing, or appends the row under
  the next identifier. Console output is not modelled.
\<close>

record request =
  reqFile :: "string option"
  jobDescription :: "string option"
  jobTitle :: "string option"

record services =
  getText :: "string \<Rightarrow> string outcome"
  generateContent :: upstream
  insertFailure :: "analysisRow \<Rightarrow> string option"

record world = effects +
  analyses :: "(nat \<times> analysisRow) list"
  nextId :: nat

datatype body = ErrorBody string | AnalysisBody bool nat json

record httpResponse =
  status :: nat
  body :: body

definition requiredBody :: string where
  "requiredBody = ''Resume and JD required''"

definition overloadedBody :: string where
  "overloadedBody = ''Gemini 2.5 is overloaded. Please click 'Scan' again.''"

definition failedBody :: string where
  "failedBody = ''Analysis failed. See server logs.''"

text \<open>
  The handler in four parts, in the order of the source: \<open>tryBlock\<close> is the body of
  \<^verbatim>\<open>try\<close> (lines 84 to 125) up to the model's reply, \<open>respond\<close> is lines 115
  to 123 (trim, clean, parse, build the values), \<open>store\<close> is the \<^verbatim>\<open>INSERT\<close>
  and the 200 answer, and \<open>analyze\<close> is the whole handler with its \<^verbatim>\<open>catch\<close>
  (lines 127 to 134). An answer sent with \<^verbatim>\<open>res.json\<close> alone has status 200.
\<close>

definition store ::
  "services \<Rightarrow> analysisRow \<Rightarrow> json \<Rightarrow> world \<Rightarrow> httpResponse outcome \<times> world" where
  "store sv row analysis w =
     (case insertFailure sv row of
        Some message \<Rightarrow> (Throws message, w)
      | None \<Rightarrow>
          (Returns \<lparr>status = 200, body = AnalysisBody True (nextId w) analysis\<rparr>,
           w\<lparr>analyses := analyses w @ [(nextId w, row)], nextId := nextId w + 1\<rparr>))"

definition respond ::
  "'a engine_scheme \<Rightarrow> services \<Rightarrow> request \<Rightarrow> string \<Rightarrow> world \<Rightarrow>
   httpResponse outcome \<times> world" where
  "respond engine sv rq text w =
     (let responseText = trim text in
      case JSON_parse engine (cleanJson responseText) of
        Throws message \<Rightarrow> (Throws message, w)
      | Returns analysis \<Rightarrow>
          (case insertValues engine (jobTitle rq) analysis of
             Throws message \<Rightarrow> (Throws message, w)
           | Returns row \<Rightarrow> store sv row analysis w))"

definition tryBlock ::
  "'a engine_scheme \<Rightarrow> services \<Rightarrow> request \<Rightarrow> world \<Rightarrow> httpResponse outcome \<times> world" where
  "tryBlock engine sv rq w =
     (case (reqFile rq, jobDescription rq) of
        (Some buffer, Some description) \<Rightarrow>
          if description = [] then (Returns \<lparr>status = 400, body = ErrorBody requiredBody\<rparr>, w)
          else
            (case getText sv buffer of
               Throws message \<Rightarrow> (Throws message, w)
             | Returns resumeText \<Rightarrow>
                 (case generateWithRetry (generateContent sv) (buildPrompt resumeText description)
                         defaultRetries defaultDelay w of
                    (Rethrown message, w') \<Rightarrow> (Throws message, w')
                  | (Exhausted message, w') \<Rightarrow> (Throws message, w')
                  | (Returned (Throws message), w') \<Rightarrow> (Throws message, w')
                  | (Returned (Returns text), w') \<Rightarrow> respond engine sv rq text w'))
      | _ \<Rightarrow> (Returns \<lparr>status = 400, body = ErrorBody requiredBody\<rparr>, w))"

definition analyze ::
  "'a engine_scheme \<Rightarrow> services \<Rightarrow> request \<Rightarrow> world \<Rightarrow> httpResponse \<times> world" where
  "analyze engine sv rq w =
     (case tryBlock engine sv rq w of
        (Returns response, w') \<Rightarrow> (response, w')
      | (Throws message, w') \<Rightarrow>
          (if includes_str ''503'' message
           then \<lparr>status = 503, body = ErrorBody overloadedBody\<rparr>
           else \<lparr>status = 500, body = ErrorBody failedBody\<rparr>, w'))"

subsection \<open>Stub collaborators for concrete runs\<close>

text \<open>
  Test doubles, used only to run the handler on concrete inputs: an engine with fixed
  messages, a model that fails a given number of times before it replies, a PDF parser that
  returns a fixed text or fails, and a database that accepts every row.
\<close>

definition stubEngine :: engine where
  "stubEngine =
     \<lparr>syntaxErrorMessage = (\<lambda>text. ''Unexpected token in JSON''),
      nullReadMessage = ''Cannot read properties of null'',
      undefinedReadMessage = ''Cannot read properties of undefined'',
      notAFunctionMessage = ''analysis.missingKeywords.join is not a function'',
      notPrimitiveMessage = ''Cannot convert object to primitive value'',
      numberToString = (\<lambda>r. units ''0'')\<rparr>"

definition failsThenReplies :: "nat \<Rightarrow> string \<Rightarrow> string \<Rightarrow> upstream" where
  "failsThenReplies n message reply k prompt =
     (if k < n then Throws message else Returns (Returns reply))"

definition alwaysFails :: "string \<Rightarrow> upstream" where
  "alwaysFails message k prompt = Throws message"

definition stubServices :: "string outcome \<Rightarrow> upstream \<Rightarrow> services" where
  "stubServices extracted model =
     \<lparr>getText = (\<lambda>buffer. extracted), generateContent = model,
      insertFailure = (\<lambda>row. None)\<rparr>"

definition emptyWorld :: world where
  "emptyWorld = \<lparr>calls = 0, waits = [], analyses = [], nextId = 1\<rparr>"

definition sampleRequest :: request where
  "sampleRequest =
     \<lparr>reqFile = Some ''%PDF-1.4'', jobDescription = Some ''Go developer'', jobTitle = None\<rparr>"

definition sampleReply :: string where
  \<open>sampleReply = ''{"score": 150, "missingKeywords": [], "advice": "ok"}''\<close>


text \<open>
  The delays of \<open>n\<close> consecutive retries that start from \<open>delay\<close>: \<open>delay\<close>,
  \<open>delay * 1.5\<close>, \<open>delay * 1.5\<^sup>2\<close>, ... This list is used to state what the loop
  hands to \<^verbatim>\<open>setTimeout\<close>; it is not part of the source.
\<close>

definition backoff :: "rat \<Rightarrow> nat \<Rightarrow> rat list" where
  "backoff delay n = map (\<lambda>k. delay * (3 / 2) ^ k) [0..<n]"

section \<open>Properties\<close>

subsection \<open>Substring tests\<close>

lemma startsWith_iff: "startsWith p s \<longleftrightarrow> (\<exists>b. s = p @ b)"
  by (induction p s rule: startsWith.induct) auto

lemma includes_str_iff: "includes_str p s \<longleftrightarrow> (\<exists>a b. s = a @ p @ b)"
proof (induction s)
  case Nil
  then show ?case by simp
next
  case (Cons c cs)
  show ?case
  proof
    assume "includes_str p (c # cs)"
    then consider "startsWith p (c # cs)" | "includes_str p cs" by auto
    then show "\<exists>a b. c # cs = a @ p @ b"
    proof cases
      case 1
      then obtain b where "c # cs = p @ b" by (auto simp: startsWith_iff)
      then have "c # cs = [] @ p @ b" by simp
      then show ?thesis by blast
    next
      case 2
      then obtain a b where "cs = a @ p @ b" using Cons.IH by blast
      then have "c # cs = (c # a) @ p @ b" by simp
      then show ?thesis by blast
    qed
  next
    assume "\<exists>a b. c # cs = a @ p @ b"
    then obtain a b where ab: "c # cs = a @ p @ b" by blast
    show "includes_str p (c # cs)"
    proof (cases a)
      case Nil
      then have "startsWith p (c # cs)" using ab by (auto simp: startsWith_iff)
      then show ?thesis by simp
    next
      case (Cons x xs)
      then have "cs = xs @ p @ b" using ab by simp
      then have "includes_str p cs" using Cons.IH by blast
      then show ?thesis by simp
    qed
  qed
qed

subsection \<open>The retry loop\<close>

lemma retryLoop_busy_steps:
  assumes "\<forall>k<n. \<exists>m. gen (calls s + k) p = Throws m \<and> isBusy m"
    and "i + int n < retries"
  shows "retryLoop gen p retries i d s =
         retryLoop gen p retries (i + int n) (d * (3 / 2) ^ n)
           (s\<lparr>calls := calls s + n, waits := waits s @ backoff d n\<rparr>)"
  using assms
proof (induction n)
  case 0
  then show ?case by (simp add: backoff_def)
next
  case (Suc n)
  let ?s = "s\<lparr>calls := calls s + n, waits := waits s @ backoff d n\<rparr>"
  have step: "retryLoop gen p retries i d s =
      retryLoop gen p retries (i + int n) (d * (3 / 2) ^ n) ?s"
    using Suc by simp
  obtain m where m: "gen (calls s + n) p = Throws m" "isBusy m"
    using Suc.prems(1) by blast
  have one: "retryLoop gen p retries (i + int n) (d * (3 / 2) ^ n) ?s =
      retryLoop gen p retries (i + int n + 1) (d * (3 / 2) ^ n * (3 / 2))
        (?s\<lparr>calls := calls ?s + 1, waits := waits ?s @ [d * (3 / 2) ^ n]\<rparr>)"
    using m Suc.prems(2) by (subst retryLoop.simps) simp
  have e1: "i + int n + 1 = i + int (Suc n)"
    by simp
  have e2: "d * (3 / 2) ^ n * (3 / 2) = d * (3 / 2) ^ Suc n"
    by simp
  have e3: "?s\<lparr>calls := calls ?s + 1, waits := waits ?s @ [d * (3 / 2) ^ n]\<rparr> =
         s\<lparr>calls := calls s + Suc n, waits := waits s @ backoff d (Suc n)\<rparr>"
    by (simp add: backoff_def)
  have "retryLoop gen p retries i d s =
      retryLoop gen p retries (i + int n + 1) (d * (3 / 2) ^ n * (3 / 2))
        (?s\<lparr>calls := calls ?s + 1, waits := waits ?s @ [d * (3 / 2) ^ n]\<rparr>)"
    using step one by (rule trans)
  then show ?case
    by (simp only: e1 e2 e3)
qed

lemma backoff_sorted:
  assumes "0 \<le> d"
  shows "sorted (backoff d n)"
proof -
  have mono: "d * (3 / 2) ^ j \<le> d * (3 / 2) ^ k" if "j \<le> k" for j k :: nat
  proof -
    have "((3 / 2)::rat) ^ j \<le> (3 / 2) ^ k"
      using that by (intro power_increasing) simp_all
    then show ?thesis using assms by (rule mult_left_mono)
  qed
  have "sorted_wrt (\<le>) [0..<n]" by simp
  then have "sorted_wrt (\<lambda>j k. d * (3 / 2) ^ j \<le> d * (3 / 2) ^ k) [0..<n]"
    by (rule sorted_wrt_mono_rel[rotated]) (simp add: mono)
  then show ?thesis by (simp add: backoff_def sorted_map)
qed

lemma retryLoop_never_exhausted:
  "i < retries \<Longrightarrow> fst (retryLoop gen p retries i d s) \<noteq> Exhausted x"
proof (induction gen p retries i d s rule: retryLoop.induct)
  case (1 gen p retries i d s)
  show ?case
  proof (cases "gen (calls s) p")
    case (Returns r)
    then show ?thesis using "1.prems" by (subst retryLoop.simps) simp
  next
    case (Throws m)
    show ?thesis
    proof (cases "isBusy m \<and> i < retries - 1")
      case True
      then have "fst (retryLoop gen p retries (i + 1) (d * (3 / 2))
                   (s\<lparr>calls := calls s + 1, waits := waits s @ [d]\<rparr>)) \<noteq> Exhausted x"
        using "1.IH"[OF "1.prems" Throws] by simp
      then show ?thesis using True Throws "1.prems" by (subst retryLoop.simps) simp
    next
      case False
      then show ?thesis using Throws "1.prems" by (subst retryLoop.simps) auto
    qed
  qed
qed

lemma retryLoop_calls_bounds:
  "calls s \<le> calls (snd (retryLoop gen p retries i d s)) \<and>
   calls (snd (retryLoop gen p retries i d s)) \<le> calls s + nat (retries - i)"
proof (induction gen p retries i d s rule: retryLoop.induct)
  case (1 gen p retries i d s)
  show ?case
  proof (cases "i < retries")
    case False
    then show ?thesis by (subst (1 2) retryLoop.simps) simp
  next
    case lt: True
    show ?thesis
    proof (cases "gen (calls s) p")
      case (Returns r)
      then show ?thesis using lt by (subst (1 2) retryLoop.simps) simp
    next
      case (Throws m)
      show ?thesis
      proof (cases "isBusy m \<and> i < retries - 1")
        case True
        let ?s = "s\<lparr>calls := calls s + 1, waits := waits s @ [d]\<rparr>"
        have eq: "retryLoop gen p retries i d s = retryLoop gen p retries (i + 1) (d * (3 / 2)) ?s"
          using True Throws lt by (subst retryLoop.simps) simp
        have "calls ?s \<le> calls (snd (retryLoop gen p retries (i + 1) (d * (3 / 2)) ?s)) \<and>
              calls (snd (retryLoop gen p retries (i + 1) (d * (3 / 2)) ?s))
                \<le> calls ?s + nat (retries - (i + 1))"
          using "1.IH"[OF lt Throws] True by simp
        moreover have "Suc (nat (retries - (i + 1))) = nat (retries - i)"
          using lt by linarith
        ultimately show ?thesis using eq by simp
      next
        case False
        then show ?thesis using Throws lt by (subst (1 2) retryLoop.simps) auto
      qed
    qed
  qed
qed


lemma retryLoop_calls_at_least_one:
  assumes "i < retries"
  shows "calls s + 1 \<le> calls (snd (retryLoop gen p retries i d s))"
proof (cases "gen (calls s) p")
  case (Returns r)
  then show ?thesis using assms by (subst retryLoop.simps) simp
next
  case (Throws m)
  show ?thesis
  proof (cases "isBusy m \<and> i < retries - 1")
    case True
    let ?s = "s\<lparr>calls := calls s + 1, waits := waits s @ [d]\<rparr>"
    have "retryLoop gen p retries i d s = retryLoop gen p retries (i + 1) (d * (3 / 2)) ?s"
      using True Throws assms by (subst retryLoop.simps) simp
    moreover have "calls ?s \<le> calls (snd (retryLoop gen p retries (i + 1) (d * (3 / 2)) ?s))"
      using retryLoop_calls_bounds by blast
    ultimately show ?thesis by simp
  next
    case False
    then show ?thesis using Throws assms by (subst retryLoop.simps) auto
  qed
qed

text \<open>
  Claim C1, evaluated on the code. With the default five attempts and an upstream that
  answers every call with a 503 error, \<^verbatim>\<open>generateWithRetry\<close> makes five calls
  and waits four times, and it ends in \<^verbatim>\<open>throw error\<close> on line 54 with the
  upstream's own message: the fifth failure takes the \<^verbatim>\<open>else\<close> branch because
  \<^verbatim>\<open>i < retries - 1\<close> is false. The claim asks for the error of line 58 with
  its fixed capacity message instead.
\<close>

theorem generateWithRetry_exhaustion_rethrows_upstream_error:
  "generateWithRetry (alwaysFails ''503 Service Unavailable'') ''prompt''
     defaultRetries defaultDelay \<lparr>calls = 0, waits = []\<rparr> =
   (Rethrown ''503 Service Unavailable'',
    \<lparr>calls = 5, waits = [3000, 4500, 6750, 10125]\<rparr>)
   \<and> ''503 Service Unavailable'' \<noteq> capacityMessage"
  by (simp add: generateWithRetry_def retryLoop.simps isBusy_def defaultRetries_def
      defaultDelay_def alwaysFails_def capacityMessage_def)

text \<open>
  Claim C2. If the first \<open>N - 1\<close> calls fail with a busy (503 or overloaded) error and
  call \<open>N\<close> returns, for \<open>1 \<le> N \<le> retries\<close>, then
  \<^verbatim>\<open>generateWithRetry\<close> returns that result after exactly \<open>N\<close> calls. It waits
  \<open>N - 1\<close> times: the first wait is the initial delay, each later one is the wait before
  it times 1.5, and for a delay that is not negative the waits never decrease.
\<close>

theorem generateWithRetry_succeeds_on_attempt_N:
  assumes "1 \<le> N" and "int N \<le> retries"
    and "\<forall>k<N - 1. \<exists>m. gen (calls s + k) p = Throws m \<and> isBusy m"
    and "gen (calls s + (N - 1)) p = Returns r"
  shows "generateWithRetry gen p retries delay s =
           (Returned r, s\<lparr>calls := calls s + N, waits := waits s @ backoff delay (N - 1)\<rparr>)
         \<and> length (backoff delay (N - 1)) = N - 1
         \<and> (\<forall>k<N - 1. backoff delay (N - 1) ! k =
               (if k = 0 then delay else backoff delay (N - 1) ! (k - 1) * (3 / 2)))
         \<and> (0 \<le> delay \<longrightarrow> sorted (backoff delay (N - 1)))"
proof -
  let ?n = "N - 1"
  let ?s = "s\<lparr>calls := calls s + ?n, waits := waits s @ backoff delay ?n\<rparr>"
  have lt: "0 + int ?n < retries" using assms(1,2) by simp
  have "retryLoop gen p retries 0 delay s =
        retryLoop gen p retries (0 + int ?n) (delay * (3 / 2) ^ ?n) ?s"
    using assms(3) lt by (rule retryLoop_busy_steps)
  also have "\<dots> = (Returned r, ?s\<lparr>calls := calls ?s + 1\<rparr>)"
    using assms(4) lt by (subst retryLoop.simps) simp
  finally have run: "generateWithRetry gen p retries delay s =
      (Returned r, s\<lparr>calls := calls s + N, waits := waits s @ backoff delay (N - 1)\<rparr>)"
    using assms(1) by (simp add: generateWithRetry_def)
  have step: "backoff delay ?n ! k =
      (if k = 0 then delay else backoff delay ?n ! (k - 1) * (3 / 2))" if "k < ?n" for k
  proof (cases k)
    case 0
    then show ?thesis using that by (simp add: backoff_def)
  next
    case (Suc j)
    then show ?thesis using that by (simp add: backoff_def)
  qed
  show ?thesis
    using run step backoff_sorted by (simp add: backoff_def)
qed

text \<open>
  Claim C3. An error is busy exactly when its message has \<^verbatim>\<open>503\<close> or
  \<^verbatim>\<open>overloaded\<close> as a substring. When attempt \<open>k\<close> (counted from 0, after
  \<open>k\<close> busy failures) throws an error that is not busy, that error is rethrown at once:
  the run has made \<open>k + 1\<close> calls, one for this attempt, and no wait follows the
  failure. A busy error with an attempt remaining is retried: at least one more call is
  made.
\<close>

theorem generateWithRetry_fatal_error_propagates:
  assumes "int k < retries"
    and "\<forall>j<k. \<exists>m. gen (calls s + j) p = Throws m \<and> isBusy m"
    and "gen (calls s + k) p = Throws message"
  shows "(isBusy message \<longleftrightarrow>
            (\<exists>a b. message = a @ ''503'' @ b) \<or> (\<exists>a b. message = a @ ''overloaded'' @ b))
         \<and> (\<not> isBusy message \<longrightarrow>
              generateWithRetry gen p retries delay s =
                (Rethrown message,
                 s\<lparr>calls := calls s + k + 1, waits := waits s @ backoff delay k\<rparr>))
         \<and> (isBusy message \<and> int k < retries - 1 \<longrightarrow>
              calls s + k + 2 \<le> calls (snd (generateWithRetry gen p retries delay s)))"
proof -
  let ?s = "s\<lparr>calls := calls s + k, waits := waits s @ backoff delay k\<rparr>"
  have lt: "0 + int k < retries" using assms(1) by simp
  have prefix: "retryLoop gen p retries 0 delay s =
        retryLoop gen p retries (0 + int k) (delay * (3 / 2) ^ k) ?s"
    using assms(2) lt by (rule retryLoop_busy_steps)
  have fatal: "generateWithRetry gen p retries delay s =
      (Rethrown message, s\<lparr>calls := calls s + k + 1, waits := waits s @ backoff delay k\<rparr>)"
    if "\<not> isBusy message"
  proof -
    have "retryLoop gen p retries (0 + int k) (delay * (3 / 2) ^ k) ?s =
          (Rethrown message, ?s\<lparr>calls := calls ?s + 1\<rparr>)"
      using that assms(3) lt by (subst retryLoop.simps) simp
    then show ?thesis using prefix by (simp add: generateWithRetry_def)
  qed
  have retried: "calls s + k + 2 \<le> calls (snd (generateWithRetry gen p retries delay s))"
    if "isBusy message" and "int k < retries - 1"
  proof -
    let ?t = "?s\<lparr>calls := calls ?s + 1, waits := waits ?s @ [delay * (3 / 2) ^ k]\<rparr>"
    have "retryLoop gen p retries (0 + int k) (delay * (3 / 2) ^ k) ?s =
          retryLoop gen p retries (0 + int k + 1) (delay * (3 / 2) ^ k * (3 / 2)) ?t"
      using that assms(3) lt by (subst retryLoop.simps) simp
    moreover have "calls ?t + 1 \<le>
        calls (snd (retryLoop gen p retries (0 + int k + 1) (delay * (3 / 2) ^ k * (3 / 2)) ?t))"
      using that(2) by (intro retryLoop_calls_at_least_one) simp
    ultimately show ?thesis using prefix by (simp add: generateWithRetry_def)
  qed
  show ?thesis
    using fatal retried by (simp add: isBusy_def includes_str_iff)
qed

text \<open>
  Claim C9. For \<open>retries \<ge> 1\<close> every run of \<^verbatim>\<open>generateWithRetry\<close> ends by
  returning a result (line 44) or by rethrowing inside the loop (line 54); it never
  reaches the \<^verbatim>\<open>throw\<close> after the loop (line 58).
\<close>

theorem generateWithRetry_capacity_throw_unreachable:
  assumes "1 \<le> retries"
  shows "(\<exists>result. fst (generateWithRetry gen p retries delay s) = Returned result)
       \<or> (\<exists>message. fst (generateWithRetry gen p retries delay s) = Rethrown message)"
proof -
  have "fst (retryLoop gen p retries 0 delay s) \<noteq> Exhausted x" for x
    using assms by (intro retryLoop_never_exhausted) simp
  then show ?thesis
    by (cases "fst (retryLoop gen p retries 0 delay s)") (auto simp: generateWithRetry_def)
qed

theorem generateWithRetry_succeeds_on_attempt_N_witness:
  "generateWithRetry
     (\<lambda>k p. if k < 2 then Throws ''503 Service Unavailable'' else Returns (Returns ''{}''))
     ''prompt'' 5 3000 \<lparr>calls = 0, waits = []\<rparr> =
   (Returned (Returns ''{}''), \<lparr>calls = 3, waits = [3000, 4500]\<rparr>)
   \<and> sorted [3000, 4500 :: rat]"
  using generateWithRetry_succeeds_on_attempt_N [of 3 5 "\<lambda>k p. if k < 2 then Throws ''503 Service Unavailable'' else Returns (Returns ''{}'')"
      "\<lparr>calls = 0, waits = []\<rparr>" "''prompt''" "Returns ''{}''" 3000]
  by (simp add: isBusy_def backoff_def upt_rec)

theorem generateWithRetry_fatal_error_propagates_witness:
  "generateWithRetry
     (\<lambda>k p. if k < 1 then Throws ''model is overloaded'' else Throws ''API key not valid'')
     ''prompt'' 5 3000 \<lparr>calls = 0, waits = []\<rparr> =
   (Rethrown ''API key not valid'', \<lparr>calls = 2, waits = [3000]\<rparr>)"
  using generateWithRetry_fatal_error_propagates [of 1 5 "\<lambda>k p. if k < 1 then Throws ''model is overloaded'' else Throws ''API key not valid''"
      "\<lparr>calls = 0, waits = []\<rparr>" "''prompt''" "''API key not valid''" 3000]
  by (simp add: isBusy_def backoff_def)

theorem generateWithRetry_capacity_throw_unreachable_witness:
  "(\<exists>result. fst (generateWithRetry (\<lambda>k p. Throws ''503'') ''prompt'' 5 3000
        \<lparr>calls = 0, waits = []\<rparr>) = Returned result)
   \<or> (\<exists>message. fst (generateWithRetry (\<lambda>k p. Throws ''503'') ''prompt'' 5 3000
        \<lparr>calls = 0, waits = []\<rparr>) = Rethrown message)"
  using generateWithRetry_capacity_throw_unreachable [of 5 "\<lambda>k p. Throws ''503''" "''prompt''" 3000 "\<lparr>calls = 0, waits = []\<rparr>"]
  by simp

subsection \<open>The request handler\<close>

lemma retryLoop_effects_only:
  "\<exists>c ws. snd (retryLoop gen p r i d s) = s\<lparr>calls := c, waits := ws\<rparr>"
proof (induction gen p r i d s rule: retryLoop.induct)
  case (1 gen p retries i d s)
  show ?case
  proof (cases "i < retries")
    case False
    then have "snd (retryLoop gen p retries i d s) = s\<lparr>calls := calls s, waits := waits s\<rparr>"
      by (subst retryLoop.simps) simp
    then show ?thesis by blast
  next
    case lt: True
    show ?thesis
    proof (cases "gen (calls s) p")
      case (Returns r)
      then have "snd (retryLoop gen p retries i d s) = s\<lparr>calls := calls s + 1, waits := waits s\<rparr>"
        using lt by (subst retryLoop.simps) simp
      then show ?thesis by blast
    next
      case (Throws m)
      show ?thesis
      proof (cases "isBusy m \<and> i < retries - 1")
        case True
        let ?s = "s\<lparr>calls := calls s + 1, waits := waits s @ [d]\<rparr>"
        have eq: "retryLoop gen p retries i d s = retryLoop gen p retries (i + 1) (d * (3 / 2)) ?s"
          using True Throws lt by (subst retryLoop.simps) simp
        obtain c ws where "snd (retryLoop gen p retries (i + 1) (d * (3 / 2)) ?s) =
            ?s\<lparr>calls := c, waits := ws\<rparr>"
          using "1.IH"[OF lt Throws] True by blast
        then have "snd (retryLoop gen p retries i d s) = s\<lparr>calls := c, waits := ws\<rparr>"
          using eq by simp
        then show ?thesis by blast
      next
        case False
        then have "snd (retryLoop gen p retries i d s) =
            s\<lparr>calls := calls s + 1, waits := waits s\<rparr>"
          using Throws lt by (subst retryLoop.simps) auto
        then show ?thesis by blast
      qed
    qed
  qed
qed

lemma generateWithRetry_world:
  fixes w :: world
  shows "analyses (snd (generateWithRetry gen p r d w)) = analyses w"
    and "nextId (snd (generateWithRetry gen p r d w)) = nextId w"
proof -
  obtain c ws where "snd (generateWithRetry gen p r d w) = w\<lparr>calls := c, waits := ws\<rparr>"
    using retryLoop_effects_only[of gen p r 0 d w] by (auto simp: generateWithRetry_def)
  then show "analyses (snd (generateWithRetry gen p r d w)) = analyses w"
    and "nextId (snd (generateWithRetry gen p r d w)) = nextId w"
    by simp_all
qed

lemma insertValues_Returns:
  assumes "insertValues e jt analysis = Returns row"
  shows "job_title row = (case jt of None \<Rightarrow> unknownRole | Some t \<Rightarrow> if t = [] then unknownRole else t)"
    and "match_score row = member analysis (units ''score'')"
    and "\<exists>xs. member analysis (units ''missingKeywords'') = Some (JArray xs)
           \<and> joinWith e (units '', '') xs = Returns (missing_skills row)"
  using assms
  by (auto simp: insertValues_def Let_def split: if_splits option.splits json.splits outcome.splits)

lemma respond_cases:
  "(\<exists>m. respond e sv rq text w = (Throws m, w)) \<or>
   (\<exists>analysis row.
      JSON_parse e (cleanJson (trim text)) = Returns analysis \<and>
      insertValues e (jobTitle rq) analysis = Returns row \<and>
      insertFailure sv row = None \<and>
      respond e sv rq text w =
        (Returns \<lparr>status = 200, body = AnalysisBody True (nextId w) analysis\<rparr>,
         w\<lparr>analyses := analyses w @ [(nextId w, row)], nextId := nextId w + 1\<rparr>))"
  by (auto simp: respond_def store_def Let_def split: outcome.splits option.splits)

lemma tryBlock_cases:
  "(reqFile rq = None \<or> jobDescription rq = None \<or> jobDescription rq = Some []) \<and>
     tryBlock e sv rq w = (Returns \<lparr>status = 400, body = ErrorBody requiredBody\<rparr>, w)
   \<or>
   (\<exists>buffer description. reqFile rq = Some buffer \<and> jobDescription rq = Some description
       \<and> description \<noteq> []) \<and>
     (\<exists>m w'. tryBlock e sv rq w = (Throws m, w') \<and> analyses w' = analyses w
         \<and> nextId w' = nextId w)
   \<or>
   (\<exists>buffer description resumeText reply analysis row w'.
        reqFile rq = Some buffer \<and> jobDescription rq = Some description \<and> description \<noteq> [] \<and>
        getText sv buffer = Returns resumeText \<and>
        generateWithRetry (generateContent sv) (buildPrompt resumeText description)
          defaultRetries defaultDelay w = (Returned (Returns reply), w') \<and>
        analyses w' = analyses w \<and> nextId w' = nextId w \<and>
        JSON_parse e (cleanJson (trim reply)) = Returns analysis \<and>
        insertValues e (jobTitle rq) analysis = Returns row \<and>
        insertFailure sv row = None \<and>
        tryBlock e sv rq w =
          (Returns \<lparr>status = 200, body = AnalysisBody True (nextId w) analysis\<rparr>,
           w'\<lparr>analyses := analyses w @ [(nextId w, row)], nextId := nextId w + 1\<rparr>))"
proof (cases "reqFile rq")
  case None
  then show ?thesis by (simp add: tryBlock_def)
next
  case (Some buffer)
  note upload = this
  show ?thesis
  proof (cases "jobDescription rq")
    case None
    then show ?thesis using upload by (simp add: tryBlock_def)
  next
    case (Some description)
    note jd = this
    show ?thesis
    proof (cases "description = []")
      case True
      then show ?thesis using upload jd by (simp add: tryBlock_def)
    next
      case False
      note nonempty = this
      show ?thesis
      proof (cases "getText sv buffer")
        case (Throws m)
        then show ?thesis using upload jd nonempty by (simp add: tryBlock_def)
      next
        case (Returns resumeText)
        note extracted = this
        let ?run = "generateWithRetry (generateContent sv) (buildPrompt resumeText description)
                      defaultRetries defaultDelay w"
        obtain x w' where run: "?run = (x, w')" by (cases ?run)
        have w': "analyses w' = analyses w" "nextId w' = nextId w"
          using generateWithRetry_world[of "generateContent sv" "buildPrompt resumeText description"
              defaultRetries defaultDelay w] run by simp_all
        have tb: "tryBlock e sv rq w =
            (case x of Rethrown m \<Rightarrow> (Throws m, w') | Exhausted m \<Rightarrow> (Throws m, w')
             | Returned (Throws m) \<Rightarrow> (Throws m, w')
             | Returned (Returns reply) \<Rightarrow> respond e sv rq reply w')"
          using upload jd nonempty extracted run
          by (simp add: tryBlock_def split: exit.splits outcome.splits)
        show ?thesis
        proof (cases x)
          case (Rethrown m)
          then show ?thesis using tb w' upload jd nonempty by simp
        next
          case (Exhausted m)
          then show ?thesis using tb w' upload jd nonempty by simp
        next
          case (Returned result)
          show ?thesis
          proof (cases result)
            case (Throws m)
            then show ?thesis using Returned tb w' upload jd nonempty by simp
          next
            case (Returns reply)
            then have tb': "tryBlock e sv rq w = respond e sv rq reply w'"
              using Returned tb by simp
            have run': "?run = (Returned (Returns reply), w')"
              using run Returned Returns by simp
            from respond_cases[of e sv rq reply w'] show ?thesis
            proof (elim disjE exE conjE)
              fix m assume "respond e sv rq reply w' = (Throws m, w')"
              then show ?thesis using tb' w' upload jd nonempty by simp
            next
              fix analysis row
              assume "JSON_parse e (cleanJson (trim reply)) = Returns analysis"
                "insertValues e (jobTitle rq) analysis = Returns row"
                "insertFailure sv row = None"
                "respond e sv rq reply w' =
                  (Returns \<lparr>status = 200, body = AnalysisBody True (nextId w') analysis\<rparr>,
                   w'\<lparr>analyses := analyses w' @ [(nextId w', row)], nextId := nextId w' + 1\<rparr>)"
              then show ?thesis using tb' w' upload jd nonempty extracted run'
                by (intro disjI2) auto
            qed
          qed
        qed
      qed
    qed
  qed
qed

lemma analyze_cases:
  "(reqFile rq = None \<or> jobDescription rq = None \<or> jobDescription rq = Some []) \<and>
     analyze e sv rq w = (\<lparr>status = 400, body = ErrorBody requiredBody\<rparr>, w)
   \<or>
   (\<exists>buffer description. reqFile rq = Some buffer \<and> jobDescription rq = Some description
       \<and> description \<noteq> []) \<and>
     (\<exists>m w'. tryBlock e sv rq w = (Throws m, w') \<and> analyses w' = analyses w \<and>
        analyze e sv rq w =
          (if includes_str ''503'' m then \<lparr>status = 503, body = ErrorBody overloadedBody\<rparr>
           else \<lparr>status = 500, body = ErrorBody failedBody\<rparr>, w'))
   \<or>
   (\<exists>buffer description resumeText reply analysis row w'.
        reqFile rq = Some buffer \<and> jobDescription rq = Some description \<and> description \<noteq> [] \<and>
        getText sv buffer = Returns resumeText \<and>
        generateWithRetry (generateContent sv) (buildPrompt resumeText description)
          defaultRetries defaultDelay w = (Returned (Returns reply), w') \<and>
        JSON_parse e (cleanJson (trim reply)) = Returns analysis \<and>
        insertValues e (jobTitle rq) analysis = Returns row \<and>
        insertFailure sv row = None \<and>
        analyze e sv rq w =
          (\<lparr>status = 200, body = AnalysisBody True (nextId w) analysis\<rparr>,
           w'\<lparr>analyses := analyses w @ [(nextId w, row)], nextId := nextId w + 1\<rparr>))"
  using tryBlock_cases[of rq e sv w]
proof (elim disjE)
  assume "(reqFile rq = None \<or> jobDescription rq = None \<or> jobDescription rq = Some []) \<and>
     tryBlock e sv rq w = (Returns \<lparr>status = 400, body = ErrorBody requiredBody\<rparr>, w)"
  then show ?thesis by (simp add: analyze_def)
next
  assume "(\<exists>buffer description. reqFile rq = Some buffer \<and> jobDescription rq = Some description
       \<and> description \<noteq> []) \<and>
     (\<exists>m w'. tryBlock e sv rq w = (Throws m, w') \<and> analyses w' = analyses w
         \<and> nextId w' = nextId w)"
  then show ?thesis by (intro disjI2 disjI1) (auto simp: analyze_def)
next
  assume "\<exists>buffer description resumeText reply analysis row w'.
        reqFile rq = Some buffer \<and> jobDescription rq = Some description \<and> description \<noteq> [] \<and>
        getText sv buffer = Returns resumeText \<and>
        generateWithRetry (generateContent sv) (buildPrompt resumeText description)
          defaultRetries defaultDelay w = (Returned (Returns reply), w') \<and>
        analyses w' = analyses w \<and> nextId w' = nextId w \<and>
        JSON_parse e (cleanJson (trim reply)) = Returns analysis \<and>
        insertValues e (jobTitle rq) analysis = Returns row \<and>
        insertFailure sv row = None \<and>
        tryBlock e sv rq w =
          (Returns \<lparr>status = 200, body = AnalysisBody True (nextId w) analysis\<rparr>,
           w'\<lparr>analyses := analyses w @ [(nextId w, row)], nextId := nextId w + 1\<rparr>)"
  then show ?thesis by (intro disjI2) (auto simp: analyze_def)
qed


subsection \<open>Concrete runs\<close>

lemma lex_sampleReply:
  "lexRun Between sampleReply =
     Some [LBrace, StringTok (units ''score''), Colon, NumberTok 150, Comma,
           StringTok (units ''missingKeywords''), Colon, LBracket, RBracket, Comma,
           StringTok (units ''advice''), Colon, StringTok (units ''ok''), RBrace]"
  by (simp add: sampleReply_def lexBetween_def isJsonSpace_def isDigit_def isLower_def
      isNumberChar_def lexAfter_def parseNumber_def takeSign_def takeFraction_def
      takeExponent_def digitsValue_def units_def)

lemma parse_sampleReply:
  "parseText sampleReply =
     Some (JObject [(units ''score'', JNumber 150), (units ''missingKeywords'', JArray []),
                    (units ''advice'', JString (units ''ok''))])"
  by (simp add: parseText_def lex_sampleReply startValue_def startMember_def)

lemma clean_sampleReply: "cleanJson (trim sampleReply) = sampleReply"
  by (simp add: cleanJson_def trim_def sampleReply_def isWhiteSpace_def eraseAll.simps
      fence_def fenceJson_def)

lemma analyze_sample:
  "analyze stubEngine (stubServices (Returns ''Java developer'') (failsThenReplies 0 [] sampleReply))
     sampleRequest emptyWorld =
   (\<lparr>status = 200,
     body = AnalysisBody True 1
       (JObject [(units ''score'', JNumber 150), (units ''missingKeywords'', JArray []),
                 (units ''advice'', JString (units ''ok''))])\<rparr>,
    \<lparr>calls = 1, waits = [],
     analyses = [(1, \<lparr>job_title = ''Unknown Role'', match_score = Some (JNumber 150),
                       missing_skills = []\<rparr>)],
     nextId = 2\<rparr>)"
  by (simp add: analyze_def tryBlock_def respond_def store_def stubServices_def
      sampleRequest_def emptyWorld_def generateWithRetry_def retryLoop.simps
      failsThenReplies_def defaultRetries_def defaultDelay_def clean_sampleReply
      JSON_parse_def parse_sampleReply insertValues_def unknownRole_def units_def)

lemma analyze_sample_title:
  "analyze stubEngine (stubServices (Returns ''Java developer'') (failsThenReplies 0 [] sampleReply))
     (sampleRequest\<lparr>jobTitle := Some ''Backend Engineer''\<rparr>) emptyWorld =
   (\<lparr>status = 200,
     body = AnalysisBody True 1
       (JObject [(units ''score'', JNumber 150), (units ''missingKeywords'', JArray []),
                 (units ''advice'', JString (units ''ok''))])\<rparr>,
    \<lparr>calls = 1, waits = [],
     analyses = [(1, \<lparr>job_title = ''Backend Engineer'', match_score = Some (JNumber 150),
                       missing_skills = []\<rparr>)],
     nextId = 2\<rparr>)"
  by (simp add: analyze_def tryBlock_def respond_def store_def stubServices_def
      sampleRequest_def emptyWorld_def generateWithRetry_def retryLoop.simps
      failsThenReplies_def defaultRetries_def defaultDelay_def clean_sampleReply
      JSON_parse_def parse_sampleReply insertValues_def unknownRole_def units_def)

lemma emptyWorld_fields:
  "calls emptyWorld = 0" "waits emptyWorld = []" "analyses emptyWorld = []"
  "nextId emptyWorld = 1"
  by (simp_all add: emptyWorld_def)

lemma sampleRequest_fields:
  "reqFile sampleRequest = Some ''%PDF-1.4''" "jobDescription sampleRequest = Some ''Go developer''"
  "jobTitle sampleRequest = None"
  by (simp_all add: sampleRequest_def)

lemma tryBlock_exhausted:
  "tryBlock stubEngine
     (stubServices (Returns ''Java developer'') (alwaysFails ''503 Service Unavailable''))
     sampleRequest emptyWorld =
   (Throws ''503 Service Unavailable'',
    \<lparr>calls = 5, waits = [3000, 4500, 6750, 10125], analyses = [], nextId = 1\<rparr>)"
  by (simp add: tryBlock_def stubServices_def sampleRequest_def emptyWorld_def
      generateWithRetry_def retryLoop.simps alwaysFails_def defaultRetries_def
      defaultDelay_def isBusy_def)

lemma analyze_exhausted:
  "analyze stubEngine
     (stubServices (Returns ''Java developer'') (alwaysFails ''503 Service Unavailable''))
     sampleRequest emptyWorld =
   (\<lparr>status = 503, body = ErrorBody overloadedBody\<rparr>,
    \<lparr>calls = 5, waits = [3000, 4500, 6750, 10125], analyses = [], nextId = 1\<rparr>)"
  by (simp add: analyze_def tryBlock_exhausted)

lemma analyze_missing_description:
  "analyze stubEngine (stubServices (Returns ''Java developer'') (alwaysFails ''unused''))
     (sampleRequest\<lparr>jobDescription := None\<rparr>) emptyWorld =
   (\<lparr>status = 400, body = ErrorBody requiredBody\<rparr>, emptyWorld)"
  by (simp add: analyze_def tryBlock_def sampleRequest_def)







text \<open>
  Claim C6. A request that is not answered with 200 leaves the table as it was. A request
  answered with 200 has passed every stage (file and description present, text extracted,
  model replied, reply parsed, values built, insert accepted) and appends exactly one row.
  A request without file or job description is answered with 400 and changes nothing:
  no model call, no wait, no row.
\<close>

theorem analyze_writes_only_on_success:
  "(status (fst (analyze e sv rq w)) \<noteq> 200 \<longrightarrow>
      analyses (snd (analyze e sv rq w)) = analyses w)
   \<and> (status (fst (analyze e sv rq w)) = 200 \<longrightarrow>
       (\<exists>buffer description resumeText reply analysis row w'.
          reqFile rq = Some buffer \<and> jobDescription rq = Some description \<and>
          description \<noteq> [] \<and>
          getText sv buffer = Returns resumeText \<and>
          generateWithRetry (generateContent sv) (buildPrompt resumeText description)
            defaultRetries defaultDelay w = (Returned (Returns reply), w') \<and>
          JSON_parse e (cleanJson (trim reply)) = Returns analysis \<and>
          insertValues e (jobTitle rq) analysis = Returns row \<and>
          insertFailure sv row = None \<and>
          analyses (snd (analyze e sv rq w)) = analyses w @ [(nextId w, row)]))
   \<and> (reqFile rq = None \<or> jobDescription rq = None \<or> jobDescription rq = Some [] \<longrightarrow>
        status (fst (analyze e sv rq w)) = 400 \<and> snd (analyze e sv rq w) = w)"
  using analyze_cases[of rq e sv w]
  by (elim disjE conjE exE) auto

theorem analyze_writes_only_on_success_witness:
  "analyses (snd (analyze stubEngine
       (stubServices (Returns ''Java developer'') (alwaysFails ''503 Service Unavailable''))
       sampleRequest emptyWorld)) = []
   \<and> length (analyses (snd (analyze stubEngine
       (stubServices (Returns ''Java developer'') (failsThenReplies 0 [] sampleReply))
       sampleRequest emptyWorld))) = 1
   \<and> snd (analyze stubEngine (stubServices (Returns ''Java developer'') (alwaysFails ''unused''))
       (sampleRequest\<lparr>jobDescription := None\<rparr>) emptyWorld) = emptyWorld"
  using analyze_writes_only_on_success [of stubEngine
      "stubServices (Returns ''Java developer'') (alwaysFails ''503 Service Unavailable'')"
      sampleRequest emptyWorld]
    analyze_writes_only_on_success [of stubEngine
      "stubServices (Returns ''Java developer'') (failsThenReplies 0 [] sampleReply)"
      sampleRequest emptyWorld]
    analyze_writes_only_on_success [of stubEngine "stubServices (Returns ''Java developer'') (alwaysFails ''unused'')"
      "sampleRequest\<lparr>jobDescription := None\<rparr>" emptyWorld]
  by (simp add: analyze_exhausted analyze_sample analyze_missing_description
      emptyWorld_fields)

text \<open>
  Claim C8. The prompt is the fixed template around the first 25000 characters of the
  extracted text and the whole job description. It is a function of those two parts only:
  two texts with the same first 25000 characters give the same prompt. Its length is 355
  plus at most 25000 plus the length of the job description.
\<close>

theorem buildPrompt_truncates_resume_only:
  "buildPrompt resumeText description =
     promptHead @ take 25000 resumeText @ promptMiddle @ description @ promptTail
   \<and> buildPrompt resumeText description = buildPrompt (take 25000 resumeText) description
   \<and> (take 25000 resumeText = take 25000 other \<longrightarrow>
        buildPrompt resumeText description = buildPrompt other description)
   \<and> length (buildPrompt resumeText description) =
       355 + min (length resumeText) 25000 + length description"
  by (simp add: buildPrompt_def promptHead_def promptMiddle_def promptTail_def)

theorem buildPrompt_truncates_resume_only_witness:
  "take 25000 (replicate 25000 CHR ''a'' @ ''PAGE 40'') = take 25000 (replicate 25000 CHR ''a'')
   \<and> buildPrompt (replicate 25000 CHR ''a'' @ ''PAGE 40'') ''Go developer'' =
       buildPrompt (replicate 25000 CHR ''a'') ''Go developer''"
proof -
  have same: "take 25000 (replicate 25000 CHR ''a'' @ ''PAGE 40'') =
      take 25000 (replicate 25000 CHR ''a'')"
    by simp
  have "take 25000 (replicate 25000 CHR ''a'' @ ''PAGE 40'') =
      take 25000 (replicate 25000 CHR ''a'') \<longrightarrow>
      buildPrompt (replicate 25000 CHR ''a'' @ ''PAGE 40'') ''Go developer'' =
      buildPrompt (replicate 25000 CHR ''a'') ''Go developer''"
    using buildPrompt_truncates_resume_only [of "replicate 25000 CHR ''a'' @ ''PAGE 40''" "''Go developer''"
        "replicate 25000 CHR ''a''"]
    by blast
  with same show ?thesis by blast
qed

text \<open>
  Claim C10. The row a successful request stores has the job title \<^verbatim>\<open>Unknown Role\<close>
  when the request has no \<^verbatim>\<open>jobTitle\<close> or an empty one, and the given title
  otherwise.
\<close>

theorem analyze_persists_job_title:
  assumes "status (fst (analyze e sv rq w)) = 200"
  shows "\<exists>row. analyses (snd (analyze e sv rq w)) = analyses w @ [(nextId w, row)]
         \<and> job_title row =
             (case jobTitle rq of None \<Rightarrow> ''Unknown Role''
              | Some title \<Rightarrow> if title = [] then ''Unknown Role'' else title)"
  using analyze_cases[of rq e sv w]
proof (elim disjE conjE exE)
  fix buffer description resumeText reply analysis row w'
  assume inserted: "insertValues e (jobTitle rq) analysis = Returns row"
    and run: "analyze e sv rq w =
          (\<lparr>status = 200, body = AnalysisBody True (nextId w) analysis\<rparr>,
           w'\<lparr>analyses := analyses w @ [(nextId w, row)], nextId := nextId w + 1\<rparr>)"
  show ?thesis
    using run insertValues_Returns(1)[OF inserted]
    by (simp add: unknownRole_def split: option.splits)
qed (use assms in \<open>auto split: if_splits\<close>)

theorem analyze_persists_job_title_witness:
  "(\<exists>row. analyses (snd (analyze stubEngine
        (stubServices (Returns ''Java developer'') (failsThenReplies 0 [] sampleReply))
        sampleRequest emptyWorld)) = [(1, row)] \<and> job_title row = ''Unknown Role'')
   \<and> (\<exists>row. analyses (snd (analyze stubEngine
        (stubServices (Returns ''Java developer'') (failsThenReplies 0 [] sampleReply))
        (sampleRequest\<lparr>jobTitle := Some ''Backend Engineer''\<rparr>) emptyWorld)) = [(1, row)]
        \<and> job_title row = ''Backend Engineer'')"
  using analyze_persists_job_title [of stubEngine
      "stubServices (Returns ''Java developer'') (failsThenReplies 0 [] sampleReply)"
      sampleRequest emptyWorld]
    analyze_persists_job_title [of stubEngine
      "stubServices (Returns ''Java developer'') (failsThenReplies 0 [] sampleReply)"
      "sampleRequest\<lparr>jobTitle := Some ''Backend Engineer''\<rparr>" emptyWorld]
  by (simp add: analyze_sample analyze_sample_title emptyWorld_fields sampleRequest_fields)

subsection \<open>Code fences around the reply\<close>

lemma startsWith_appendI: "startsWith pat xs \<Longrightarrow> startsWith pat (xs @ ys)"
proof -
  assume "startsWith pat xs"
  then obtain b where "xs = pat @ b" by (auto simp: startsWith_iff)
  then have "xs @ ys = pat @ (b @ ys)" by simp
  then show ?thesis unfolding startsWith_iff by blast
qed

lemma startsWith_append_fits:
  assumes "startsWith pat (xs @ ys)" and "length pat \<le> length xs"
  shows "startsWith pat xs"
proof -
  obtain b where b: "xs @ ys = pat @ b" using assms(1) by (auto simp: startsWith_iff)
  have "pat = take (length pat) xs"
    using b assms(2) by (metis append_eq_append_conv_if append_eq_conv_conj)
  then have "xs = pat @ drop (length pat) xs"
    by (metis append_take_drop_id)
  then show ?thesis by (auto simp: startsWith_iff)
qed

lemma startsWith_append_iff:
  assumes "pat \<noteq> []" and "last pat \<notin> set ys"
  shows "startsWith pat (xs @ ys) \<longleftrightarrow> startsWith pat xs"
proof
  assume "startsWith pat (xs @ ys)"
  then obtain b where b: "xs @ ys = pat @ b" by (auto simp: startsWith_iff)
  show "startsWith pat xs"
  proof (cases "length pat \<le> length xs")
    case True
    then have "pat = take (length pat) xs"
      using b by (metis append_eq_append_conv_if append_eq_conv_conj)
    then have "xs = pat @ drop (length pat) xs"
      by (metis append_take_drop_id)
    then show ?thesis by (auto simp: startsWith_iff)
  next
    case False
    then obtain z where "pat = xs @ z" and "z \<noteq> []" and "ys = z @ b"
      using b by (auto simp: append_eq_append_conv2)
    then have "last pat \<in> set ys" by simp
    then show ?thesis using assms(2) by simp
  qed
next
  assume "startsWith pat xs"
  then show "startsWith pat (xs @ ys)" by (auto simp: startsWith_iff)
qed

lemma startsWith_length: "startsWith pat xs \<Longrightarrow> length pat \<le> length xs"
  by (auto simp: startsWith_iff)

lemma drop_append_le: "n \<le> length xs \<Longrightarrow> drop n (xs @ ys) = drop n xs @ ys"
  by simp

lemma eraseAll_no_match:
  assumes "pat \<noteq> []" and "last pat \<notin> set ys"
  shows "eraseAll pat ys = ys"
  using assms(2)
proof (induction ys)
  case Nil
  then show ?case by (simp add: eraseAll.simps)
next
  case (Cons c cs)
  have "\<not> startsWith pat (c # cs)"
  proof
    assume "startsWith pat (c # cs)"
    then obtain b where "c # cs = pat @ b" by (auto simp: startsWith_iff)
    then have "set pat \<subseteq> set (c # cs)" by (metis set_append Un_upper1)
    then show False using Cons.prems assms(1) by (meson last_in_set subsetD)
  qed
  then show ?case using Cons by (simp add: eraseAll.simps)
qed

lemma eraseAll_empty_pattern: "eraseAll [] zs = zs"
  by (induction zs) (simp_all add: eraseAll.simps)

lemma eraseAll_append_keep:
  assumes "last pat \<notin> set ys"
  shows "eraseAll pat (xs @ ys) = eraseAll pat xs @ ys"
proof (cases "pat = []")
  case True
  then show ?thesis by (simp add: eraseAll_empty_pattern)
next
  case False
  from False assms show ?thesis
  proof (induction pat xs rule: eraseAll.induct)
    case (1 pat)
    then show ?case by (simp add: eraseAll_no_match eraseAll.simps)
  next
    case (2 pat c cs)
    show ?case
    proof (cases "startsWith pat (c # cs)")
      case True
      then have long: "startsWith pat ((c # cs) @ ys)"
        using "2.prems" startsWith_append_iff[of pat ys "c # cs"] by blast
      have "length pat \<le> length (c # cs)"
        using True by (rule startsWith_length)
      then have "drop (length pat) ((c # cs) @ ys) = drop (length pat) (c # cs) @ ys"
        by (rule drop_append_le)
      moreover have "eraseAll pat (drop (length pat) (c # cs) @ ys) =
          eraseAll pat (drop (length pat) (c # cs)) @ ys"
        using "2.IH"(1) "2.prems" True by simp
      moreover have "eraseAll pat ((c # cs) @ ys) = eraseAll pat (drop (length pat) ((c # cs) @ ys))"
        using long "2.prems"(1) by (simp add: eraseAll.simps del: drop_append)
      moreover have "eraseAll pat (c # cs) = eraseAll pat (drop (length pat) (c # cs))"
        using True "2.prems"(1) by (simp add: eraseAll.simps)
      ultimately show ?thesis by simp
    next
      case False
      then have short: "\<not> startsWith pat ((c # cs) @ ys)"
        using "2.prems" startsWith_append_iff[of pat ys "c # cs"] by blast
      have "eraseAll pat ((c # cs) @ ys) = c # eraseAll pat (cs @ ys)"
        using short by (simp add: eraseAll.simps)
      moreover have "eraseAll pat (c # cs) = c # eraseAll pat cs"
        using False by (simp add: eraseAll.simps)
      moreover have "eraseAll pat (cs @ ys) = eraseAll pat cs @ ys"
        using "2.IH"(2) "2.prems" False by simp
      ultimately show ?thesis by simp
    qed
  qed
qed

lemma eraseAll_skip:
  assumes "set xs \<inter> set pat = {}"
  shows "eraseAll pat (xs @ ys) = xs @ eraseAll pat ys"
  using assms
proof (induction xs)
  case Nil
  then show ?case by simp
next
  case (Cons c cs)
  have "\<not> (pat \<noteq> [] \<and> startsWith pat (c # cs @ ys))"
  proof
    assume "pat \<noteq> [] \<and> startsWith pat (c # cs @ ys)"
    then obtain p ps b where "pat = p # ps" and "c # cs @ ys = (p # ps) @ b"
      by (cases pat) (auto simp: startsWith_iff)
    then have "c \<in> set pat" by simp
    then show False using Cons.prems by auto
  qed
  then have "eraseAll pat ((c # cs) @ ys) = c # eraseAll pat (cs @ ys)"
    by (auto simp: eraseAll.simps)
  then show ?case using Cons by simp
qed

lemma eraseAll_split:
  assumes "xs \<noteq> []" and "last xs \<notin> set pat"
  shows "eraseAll pat (xs @ ys) = eraseAll pat xs @ eraseAll pat ys"
proof (cases "pat = []")
  case True
  then show ?thesis by (simp add: eraseAll_empty_pattern)
next
  case False
  from False assms show ?thesis
  proof (induction pat xs rule: eraseAll.induct)
    case (1 pat)
    then show ?case by simp
  next
    case (2 pat c cs)
    show ?case
    proof (cases "startsWith pat ((c # cs) @ ys)")
      case True
      then obtain b where b: "(c # cs) @ ys = pat @ b" by (auto simp: startsWith_iff)
      have fits: "length pat \<le> length cs"
      proof (rule ccontr)
        assume "\<not> length pat \<le> length cs"
        then have "length (c # cs) \<le> length pat" by simp
        moreover have "take (length (c # cs)) (pat @ b) = c # cs"
          using b by (metis append_eq_conv_conj)
        ultimately have "take (length (c # cs)) pat = c # cs"
          by simp
        then obtain z where "pat = (c # cs) @ z"
          by (metis append_take_drop_id)
        then have "last (c # cs) \<in> set pat" by simp
        then show False using "2.prems"(3) by simp
      qed
      then have here: "startsWith pat (c # cs)"
        using True by (intro startsWith_append_fits[of pat "c # cs" ys]) simp_all
      let ?rest = "drop (length pat) (c # cs)"
      have rest: "?rest \<noteq> []" "last ?rest = last (c # cs)"
        using fits by simp_all
      have "eraseAll pat ((c # cs) @ ys) = eraseAll pat (drop (length pat) ((c # cs) @ ys))"
        using True "2.prems"(1) by (simp add: eraseAll.simps del: drop_append)
      also have "drop (length pat) ((c # cs) @ ys) = ?rest @ ys"
        using fits by (intro drop_append_le) simp
      also have "eraseAll pat (?rest @ ys) = eraseAll pat ?rest @ eraseAll pat ys"
        using "2.IH"(1) "2.prems" here rest by simp
      also have "eraseAll pat ?rest = eraseAll pat (c # cs)"
        using here "2.prems"(1) by (simp add: eraseAll.simps)
      finally show ?thesis .
    next
      case False
      then have nothere: "\<not> startsWith pat (c # cs)"
        using startsWith_appendI[of pat "c # cs" ys] by blast
      have head: "eraseAll pat ((c # cs) @ ys) = c # eraseAll pat (cs @ ys)"
        using False by (simp add: eraseAll.simps)
      have head': "eraseAll pat (c # cs) = c # eraseAll pat cs"
        using nothere by (simp add: eraseAll.simps)
      show ?thesis
      proof (cases "cs = []")
        case True
        then show ?thesis using head head' by (simp add: eraseAll.simps)
      next
        case nonempty: False
        then have "eraseAll pat (cs @ ys) = eraseAll pat cs @ eraseAll pat ys"
          using "2.IH"(2) "2.prems" nothere by simp
        then show ?thesis using head head' by simp
      qed
    qed
  qed
qed

subsection \<open>The lexer at the ends of a text\<close>

lemma map_option_append_Nil: "map_option ((@) []) x = x"
  by (cases x) simp_all

lemma isJsonSpace_cases:
  "isJsonSpace c \<longleftrightarrow> c = CHR 0x09 \<or> c = CHR 0x0A \<or> c = CHR 0x0D \<or> c = CHR 0x20"
  by (auto simp: isJsonSpace_def)

lemma lexBetween_space: "isJsonSpace c \<Longrightarrow> lexBetween c = Some ([], Between)"
  by (simp add: lexBetween_def)

lemma lex_leading_spaces:
  "\<forall>c\<in>set a. isJsonSpace c \<Longrightarrow> lexRun Between (a @ s) = lexRun Between s"
  by (induction a) (simp_all add: lexBetween_space map_option_append_Nil)

lemma lex_space_at_end:
  assumes "isJsonSpace c"
  shows "lexRun m [c] = lexEnd m"
proof (cases m)
  case Between
  then show ?thesis using assms by (simp add: lexBetween_space)
next
  case (InString acc)
  then show ?thesis using assms by (auto simp: isJsonSpace_cases)
next
  case (InEscape acc)
  then show ?thesis using assms by (auto simp: isJsonSpace_cases escapeUnit_def)
next
  case (InUnicode acc ds)
  then show ?thesis using assms by (auto simp: isJsonSpace_cases hexValue_def)
next
  case (InNumber lexeme)
  have "\<not> isNumberChar c"
    using assms by (auto simp: isJsonSpace_cases isNumberChar_def isDigit_def)
  then show ?thesis
    using InNumber assms
    by (cases "parseNumber lexeme") (simp_all add: lexAfter_def lexBetween_space)
next
  case (InLiteral lexeme)
  have "\<not> isLower c"
    using assms by (auto simp: isJsonSpace_cases isLower_def)
  then show ?thesis
    using InLiteral assms
    by (cases "literalToken lexeme") (simp_all add: lexAfter_def lexBetween_space)
qed

lemma lex_trailing_space:
  "isJsonSpace c \<Longrightarrow> lexRun m (ys @ [c]) = lexRun m ys"
proof (induction ys arbitrary: m)
  case Nil
  then show ?case using lex_space_at_end[of c m] by simp
next
  case (Cons y ys)
  then show ?case by (simp split: option.splits)
qed

lemma lex_trailing_spaces:
  "\<forall>c\<in>set b. isJsonSpace c \<Longrightarrow> lexRun m (s @ b) = lexRun m s"
proof (induction b rule: rev_induct)
  case Nil
  then show ?case by simp
next
  case (snoc c b)
  have "lexRun m ((s @ b) @ [c]) = lexRun m (s @ b)"
    using snoc.prems by (intro lex_trailing_space) simp
  then show ?case using snoc by simp
qed

lemma parseText_spaces:
  assumes "\<forall>c\<in>set a. isJsonSpace c" and "\<forall>c\<in>set b. isJsonSpace c"
  shows "parseText (a @ s @ b) = parseText s"
proof -
  have "lexRun Between (a @ s @ b) = lexRun Between (s @ b)"
    using assms(1) by (rule lex_leading_spaces)
  also have "\<dots> = lexRun Between s"
    using assms(2) by (rule lex_trailing_spaces)
  finally show ?thesis by (simp add: parseText_def)
qed

lemma lex_dead_end:
  assumes "\<And>m'. lexRun m' [c] = None"
  shows "lexRun m (ys @ [c]) = None"
proof (induction ys arbitrary: m)
  case Nil
  then show ?case using assms by simp
next
  case (Cons y ys)
  then show ?case by (simp split: option.splits)
qed

lemma literalToken_last:
  "literalToken lexeme = Some t \<Longrightarrow> last lexeme = CHR ''e'' \<or> last lexeme = CHR ''l''"
  by (auto simp: literalToken_def split: if_splits)

lemma literalToken_snoc:
  "c \<noteq> CHR ''e'' \<Longrightarrow> c \<noteq> CHR ''l'' \<Longrightarrow> literalToken (lexeme @ [c]) = None"
  using literalToken_last[of "lexeme @ [c]"] by (cases "literalToken (lexeme @ [c])") auto

lemma lexAfter_None: "lexBetween c = None \<Longrightarrow> lexAfter m c = None"
  by (simp add: lexAfter_def split: option.splits)

lemma other_space_cases:
  assumes "isWhiteSpace c" and "\<not> isJsonSpace c"
  shows "c = CHR 0x0B \<or> c = CHR 0x0C \<or> c = CHR 0xA0"
  using assms by (simp add: isWhiteSpace_def isJsonSpace_def)

lemma lexBetween_dead:
  "lexBetween (CHR 0x0B) = None" "lexBetween (CHR 0x0C) = None" "lexBetween (CHR 0xA0) = None"
  "lexBetween (CHR 0x60) = None"
  by (simp_all add: lexBetween_def isJsonSpace_def isDigit_def isLower_def)

lemma lexStep_dead_0B: "lexStep m (CHR 0x0B) = None"
  by (cases m)
    (simp_all add: lexBetween_dead lexAfter_None escapeUnit_def hexValue_def isNumberChar_def
      isDigit_def isLower_def)

lemma lexStep_dead_0C: "lexStep m (CHR 0x0C) = None"
  by (cases m)
    (simp_all add: lexBetween_dead lexAfter_None escapeUnit_def hexValue_def isNumberChar_def
      isDigit_def isLower_def)

lemma lexRun_dead_A0: "lexRun m [CHR 0xA0] = None"
  by (cases m)
    (simp_all add: lexBetween_dead lexAfter_None escapeUnit_def hexValue_def isNumberChar_def
      isDigit_def isLower_def)

lemma lexRun_dead_backtick: "lexRun m [CHR 0x60] = None"
  by (cases m)
    (simp_all add: lexBetween_dead lexAfter_None escapeUnit_def hexValue_def isNumberChar_def
      isDigit_def isLower_def)

lemma lexRun_dead_other_space:
  assumes "isWhiteSpace c" and "\<not> isJsonSpace c"
  shows "lexRun m [c] = None"
  using other_space_cases[OF assms] lexStep_dead_0B lexStep_dead_0C lexRun_dead_A0
  by (elim disjE) simp_all


lemma lexRun_dead_n: "lexRun m [CHR ''n''] = None"
proof (cases m)
  case Between
  then show ?thesis
    by (simp add: lexBetween_def isJsonSpace_def isDigit_def isLower_def literalToken_def)
next
  case (InString acc)
  then show ?thesis by simp
next
  case (InEscape acc)
  then show ?thesis by (simp add: escapeUnit_def)
next
  case (InUnicode acc ds)
  then show ?thesis by (simp add: hexValue_def)
next
  case (InNumber lexeme)
  then show ?thesis
    by (cases "parseNumber lexeme")
      (simp_all add: lexAfter_def isNumberChar_def isDigit_def lexBetween_def isJsonSpace_def
        isLower_def literalToken_def)
next
  case (InLiteral lexeme)
  then show ?thesis by (simp add: isLower_def literalToken_snoc)
qed

subsection \<open>trim\<close>

lemma trim_decompose:
  "s = takeWhile isWhiteSpace s @ trim s @
       rev (takeWhile isWhiteSpace (rev (dropWhile isWhiteSpace s)))"
proof -
  let ?d = "dropWhile isWhiteSpace s"
  have "?d = rev (dropWhile isWhiteSpace (rev ?d)) @ rev (takeWhile isWhiteSpace (rev ?d))"
    by (metis rev_append rev_rev_ident takeWhile_dropWhile_id)
  then have "?d = trim s @ rev (takeWhile isWhiteSpace (rev ?d))"
    by (simp add: trim_def)
  moreover have "s = takeWhile isWhiteSpace s @ ?d"
    by simp
  ultimately show ?thesis by metis
qed

lemma trim_id:
  assumes "s \<noteq> []" and "\<not> isWhiteSpace (hd s)" and "\<not> isWhiteSpace (last s)"
  shows "trim s = s"
proof -
  have "dropWhile isWhiteSpace s = s"
    using assms(1,2) by (cases s) simp_all
  moreover have "dropWhile isWhiteSpace (rev s) = rev s"
    using assms(1,3) by (cases "rev s") (simp_all add: hd_rev[symmetric])
  ultimately show ?thesis by (simp add: trim_def)
qed

subsection \<open>The ends of a valid JSON text\<close>

lemma lexRun_leading_white:
  "lexRun Between s \<noteq> None \<Longrightarrow> \<forall>c\<in>set (takeWhile isWhiteSpace s). isJsonSpace c"
proof (induction s)
  case Nil
  then show ?case by simp
next
  case (Cons c cs)
  show ?case
  proof (cases "isWhiteSpace c")
    case False
    then show ?thesis by simp
  next
    case True
    have json: "isJsonSpace c"
    proof (rule ccontr)
      assume "\<not> isJsonSpace c"
      then have "lexBetween c = None"
        using other_space_cases[OF True] lexBetween_dead by auto
      then show False using Cons.prems by simp
    qed
    then have "lexRun Between (c # cs) = lexRun Between cs"
      by (simp add: lexBetween_space map_option_append_Nil)
    then show ?thesis using Cons True json by simp
  qed
qed

lemma lexRun_trailing_white:
  "lexRun m (s @ b) \<noteq> None \<Longrightarrow> \<forall>c\<in>set b. isWhiteSpace c \<Longrightarrow> \<forall>c\<in>set b. isJsonSpace c"
proof (induction b rule: rev_induct)
  case Nil
  then show ?case by simp
next
  case (snoc c b)
  have json: "isJsonSpace c"
  proof (rule ccontr)
    assume no: "\<not> isJsonSpace c"
    have "isWhiteSpace c" using snoc.prems(2) by simp
    then have "lexRun m ((s @ b) @ [c]) = None"
      using no by (intro lex_dead_end lexRun_dead_other_space)
    then show False using snoc.prems(1) by simp
  qed
  then have "lexRun m ((s @ b) @ [c]) = lexRun m (s @ b)"
    by (rule lex_trailing_space)
  then have "lexRun m (s @ b) \<noteq> None"
    using snoc.prems(1) by simp
  then show ?case using snoc json by simp
qed

lemma valid_json_ends:
  assumes "parseText j \<noteq> None"
  obtains a core z b where "j = a @ (core @ [z]) @ b" and "trim j = core @ [z]"
    and "\<forall>c\<in>set a. isJsonSpace c" and "\<forall>c\<in>set b. isJsonSpace c"
    and "z \<noteq> CHR 0x60" and "z \<noteq> CHR ''n''"
proof -
  let ?a = "takeWhile isWhiteSpace j"
  let ?b = "rev (takeWhile isWhiteSpace (rev (dropWhile isWhiteSpace j)))"
  have lexed: "lexRun Between j \<noteq> None"
    using assms by (auto simp: parseText_def split: option.splits)
  have j: "j = ?a @ trim j @ ?b"
    by (rule trim_decompose)
  have a: "\<forall>c\<in>set ?a. isJsonSpace c"
    using lexed by (rule lexRun_leading_white)
  have "\<forall>c\<in>set ?b. isWhiteSpace c"
    by (auto dest: set_takeWhileD)
  moreover have "lexRun Between ((?a @ trim j) @ ?b) \<noteq> None"
    using lexed j by (metis append.assoc)
  ultimately have b: "\<forall>c\<in>set ?b. isJsonSpace c"
    by (rule lexRun_trailing_white[rotated])
  have inner: "lexRun Between (trim j) = lexRun Between j"
  proof -
    have "lexRun Between (?a @ trim j @ ?b) = lexRun Between (trim j @ ?b)"
      using a by (rule lex_leading_spaces)
    also have "\<dots> = lexRun Between (trim j)"
      using b by (rule lex_trailing_spaces)
    finally show ?thesis using j by metis
  qed
  have "trim j \<noteq> []"
  proof
    assume "trim j = []"
    then have "lexRun Between j = Some []" using inner by simp
    then show False using assms by (simp add: parseText_def)
  qed
  then obtain core z where core: "trim j = core @ [z]"
    by (metis rev_exhaust)
  have "z \<noteq> CHR 0x60"
  proof
    assume "z = CHR 0x60"
    moreover have "lexRun Between (core @ [CHR 0x60]) = None"
      by (rule lex_dead_end[OF lexRun_dead_backtick])
    ultimately have "lexRun Between (core @ [z]) = None"
      by simp
    then show False using inner lexed core by simp
  qed
  moreover have "z \<noteq> CHR ''n''"
  proof
    assume "z = CHR ''n''"
    moreover have "lexRun Between (core @ [CHR ''n'']) = None"
      by (rule lex_dead_end[OF lexRun_dead_n])
    ultimately have "lexRun Between (core @ [z]) = None"
      by simp
    then show False using inner lexed core by simp
  qed
  ultimately show ?thesis
    using that[of ?a core z ?b] j core a b by simp
qed

lemma eraseAll_prefix:
  assumes "pat \<noteq> []"
  shows "eraseAll pat (pat @ rest) = eraseAll pat rest"
proof -
  obtain p ps where pat: "pat = p # ps" using assms by (cases pat) auto
  have "startsWith pat (p # (ps @ rest))"
    unfolding startsWith_iff using pat by simp
  then have "eraseAll pat (p # (ps @ rest)) = eraseAll pat (drop (length pat) (p # (ps @ rest)))"
    using assms by (simp add: eraseAll.simps)
  then show ?thesis using pat by simp
qed

lemma eraseAll_no_start:
  assumes "pat \<noteq> []" and "hd pat \<notin> set xs"
  shows "eraseAll pat xs = xs"
  using assms(2)
proof (induction xs)
  case Nil
  then show ?case by (simp add: eraseAll.simps)
next
  case (Cons c cs)
  have "\<not> startsWith pat (c # cs)"
  proof
    assume "startsWith pat (c # cs)"
    then obtain b where "c # cs = pat @ b" by (auto simp: startsWith_iff)
    then have "hd pat = c" using assms(1) by (cases pat) auto
    then show False using Cons.prems by simp
  qed
  then show ?case using Cons by (simp add: eraseAll.simps)
qed

lemma fence_chars_not_space:
  "c \<in> set fenceJson \<Longrightarrow> \<not> isJsonSpace c" "c \<in> set fence \<Longrightarrow> \<not> isJsonSpace c"
  by (auto simp: fenceJson_def fence_def isJsonSpace_def)

lemma fence_last: "last fenceJson = CHR ''n''" "last fence = CHR 0x60"
  by (simp_all add: fenceJson_def fence_def)

lemma spaces_not_in_fence:
  assumes "\<forall>c\<in>set ws. isJsonSpace c"
  shows "set ws \<inter> set fenceJson = {}" and "set ws \<inter> set fence = {}"
    and "last fenceJson \<notin> set ws" and "last fence \<notin> set ws"
proof -
  show "set ws \<inter> set fenceJson = {}"
    using assms fence_chars_not_space(1) by blast
  show "set ws \<inter> set fence = {}"
    using assms fence_chars_not_space(2) by blast
  have "last fenceJson \<in> set fenceJson" "last fence \<in> set fence"
    by (simp_all add: fenceJson_def fence_def)
  then show "last fenceJson \<notin> set ws" and "last fence \<notin> set ws"
    using assms fence_chars_not_space by blast+
qed

lemma cleanJson_fenced:
  assumes "\<forall>c\<in>set a. isJsonSpace c" and "\<forall>c\<in>set b. isJsonSpace c"
    and "z \<noteq> CHR 0x60" and "z \<noteq> CHR ''n''"
  shows "cleanJson (fenceJson @ a @ (core @ [z]) @ b @ fence) = a @ cleanJson (core @ [z]) @ b"
proof -
  let ?r = "eraseAll fenceJson core @ [z]"
  have r: "eraseAll fenceJson (core @ [z]) = ?r"
    using assms(4) by (intro eraseAll_append_keep) (simp add: fenceJson_def)
  have "eraseAll fenceJson (fenceJson @ a @ (core @ [z]) @ b @ fence) =
        eraseAll fenceJson (a @ (core @ [z]) @ b @ fence)"
    by (rule eraseAll_prefix) (simp add: fenceJson_def)
  also have "\<dots> = a @ eraseAll fenceJson ((core @ [z]) @ b @ fence)"
    using spaces_not_in_fence(1)[OF assms(1)] by (rule eraseAll_skip)
  also have "eraseAll fenceJson ((core @ [z]) @ b @ fence) =
        eraseAll fenceJson (core @ [z]) @ b @ fence"
    using spaces_not_in_fence(3)[OF assms(2)]
    by (intro eraseAll_append_keep) (simp add: fenceJson_def fence_def)
  finally have first: "eraseAll fenceJson (fenceJson @ a @ (core @ [z]) @ b @ fence) =
        a @ (?r @ b) @ fence"
    using r by simp
  have "?r @ b \<noteq> []" by simp
  moreover have "last (?r @ b) \<notin> set fence"
  proof (cases "b = []")
    case True
    then show ?thesis using assms(3) by (simp add: fence_def)
  next
    case False
    then have "last (?r @ b) \<in> set b" by simp
    then show ?thesis using spaces_not_in_fence(2)[OF assms(2)] by blast
  qed
  ultimately have "eraseAll fence ((?r @ b) @ fence) =
      eraseAll fence (?r @ b) @ eraseAll fence fence"
    by (rule eraseAll_split)
  moreover have "eraseAll fence fence = []"
    using eraseAll_prefix[of fence "[]"] by (simp add: fence_def eraseAll.simps)
  moreover have "eraseAll fence (?r @ b) = eraseAll fence ?r @ b"
    using spaces_not_in_fence(4)[OF assms(2)] by (rule eraseAll_append_keep)
  moreover have "eraseAll fence (a @ (?r @ b) @ fence) = a @ eraseAll fence ((?r @ b) @ fence)"
    using spaces_not_in_fence(2)[OF assms(1)] by (rule eraseAll_skip)
  ultimately have "eraseAll fence (a @ (?r @ b) @ fence) = a @ eraseAll fence ?r @ b"
    by simp
  then show ?thesis
    using first r by (simp add: cleanJson_def)
qed

lemma trim_fenced: "trim (fenceJson @ s @ fence) = fenceJson @ s @ fence"
  by (rule trim_id) (simp_all add: fenceJson_def fence_def isWhiteSpace_def)

lemma fenced_parseText:
  assumes "parseText j \<noteq> None"
    and "\<forall>c\<in>set before. isJsonSpace c" and "\<forall>c\<in>set after. isJsonSpace c"
  shows "parseText (cleanJson (trim (fenceJson @ before @ j @ after @ fence))) =
         parseText (cleanJson (trim j))"
proof -
  obtain a core z b where j: "j = a @ (core @ [z]) @ b" and t: "trim j = core @ [z]"
    and a: "\<forall>c\<in>set a. isJsonSpace c" and b: "\<forall>c\<in>set b. isJsonSpace c"
    and z: "z \<noteq> CHR 0x60" "z \<noteq> CHR ''n''"
    using assms(1) by (rule valid_json_ends)
  have a': "\<forall>c\<in>set (before @ a). isJsonSpace c" using assms(2) a by auto
  have b': "\<forall>c\<in>set (b @ after). isJsonSpace c" using assms(3) b by auto
  have "trim (fenceJson @ (before @ j @ after) @ fence) = fenceJson @ (before @ j @ after) @ fence"
    by (rule trim_fenced)
  then have "cleanJson (trim (fenceJson @ before @ j @ after @ fence)) =
      cleanJson (fenceJson @ (before @ a) @ (core @ [z]) @ (b @ after) @ fence)"
    using j by simp
  also have "\<dots> = (before @ a) @ cleanJson (core @ [z]) @ (b @ after)"
    using a' b' z by (rule cleanJson_fenced)
  finally have "parseText (cleanJson (trim (fenceJson @ before @ j @ after @ fence))) =
      parseText ((before @ a) @ cleanJson (core @ [z]) @ (b @ after))"
    by simp
  also have "\<dots> = parseText (cleanJson (core @ [z]))"
    using a' b' by (rule parseText_spaces)
  finally show ?thesis using t by simp
qed

lemma plain_parseText:
  assumes "parseText j \<noteq> None" and "CHR 0x60 \<notin> set j"
  shows "parseText (cleanJson (trim j)) = parseText j"
proof -
  obtain a core z b where j: "j = a @ (core @ [z]) @ b" and t: "trim j = core @ [z]"
    and a: "\<forall>c\<in>set a. isJsonSpace c" and b: "\<forall>c\<in>set b. isJsonSpace c"
    using assms(1) by (rule valid_json_ends)
  have "CHR 0x60 \<notin> set (core @ [z])" using assms(2) j by auto
  then have "cleanJson (core @ [z]) = core @ [z]"
    by (simp add: cleanJson_def eraseAll_no_start fenceJson_def fence_def)
  moreover have "parseText (a @ (core @ [z]) @ b) = parseText (core @ [z])"
    using a b by (rule parseText_spaces)
  ultimately show ?thesis using j t by simp
qed

text \<open>
  Claim C7. Let \<open>j\<close> be a valid JSON text. The reply that wraps \<open>j\<close> in
  \<^verbatim>\<open>```json\<close> and \<^verbatim>\<open>```\<close>, with any JSON white space (line breaks, blanks,
  or nothing) between the markers and \<open>j\<close>, is trimmed, cleaned and parsed to the same
  result as the reply \<open>j\<close> itself. When \<open>j\<close> contains no backquote, that result is
  the value of \<open>j\<close>.
\<close>

theorem fenced_reply_parses_like_plain_reply:
  assumes "parseText j = Some v"
    and "\<forall>c\<in>set before. isJsonSpace c" and "\<forall>c\<in>set after. isJsonSpace c"
  shows "(\<forall>r. JSON_parse e (cleanJson (trim (''```json'' @ before @ j @ after @ ''```''))) = Returns r
            \<longleftrightarrow> JSON_parse e (cleanJson (trim j)) = Returns r)
       \<and> (CHR 0x60 \<notin> set j \<longrightarrow>
            JSON_parse e (cleanJson (trim (''```json'' @ before @ j @ after @ ''```''))) = Returns v
          \<and> JSON_parse e (cleanJson (trim j)) = Returns v)"
proof -
  have valid: "parseText j \<noteq> None" using assms(1) by simp
  have same: "parseText (cleanJson (trim (fenceJson @ before @ j @ after @ fence))) =
      parseText (cleanJson (trim j))"
    using valid assms(2,3) by (rule fenced_parseText)
  have plain: "parseText (cleanJson (trim j)) = Some v" if "CHR 0x60 \<notin> set j"
    using plain_parseText[OF valid that] assms(1) by simp
  show ?thesis
    using same plain
    by (auto simp: JSON_parse_def fenceJson_def fence_def split: option.splits)
qed

theorem fenced_reply_parses_like_plain_reply_witness:
  "JSON_parse stubEngine (cleanJson (trim (''```json'' @ ''\<newline>'' @ sampleReply @ ''\<newline>'' @ ''```''))) =
     Returns (JObject [(units ''score'', JNumber 150), (units ''missingKeywords'', JArray []),
                       (units ''advice'', JString (units ''ok''))])
   \<and> JSON_parse stubEngine (cleanJson (trim sampleReply)) =
     Returns (JObject [(units ''score'', JNumber 150), (units ''missingKeywords'', JArray []),
                       (units ''advice'', JString (units ''ok''))])"
proof -
  have "\<forall>c\<in>set ''\<newline>''. isJsonSpace c"
    by (simp add: isJsonSpace_def)
  moreover have "CHR 0x60 \<notin> set sampleReply"
    by (simp add: sampleReply_def)
  ultimately show ?thesis
    using fenced_reply_parses_like_plain_reply [OF parse_sampleReply, of "''\<newline>''" "''\<newline>''" stubEngine] by blast
qed

end
